theory Spec2Isabelle
  imports Main "HOL-Library.AList" "HOL-Library.Monad_Syntax"
begin

section \<open>JavaScript values and the object store\<close>

text \<open>
  The endpoint methods of \<^verbatim>\<open>LanguageTranslatorV2\<close> (src/language-translator/v2.ts) build
  object literals, copy objects with \<^verbatim>\<open>extend\<close> and hand the result to \<^verbatim>\<open>createRequest\<close>.
  Objects have identity and are shared by reference, so they live in a store: a list of
  objects, an object's address being its index. A new object is appended, so its address
  is the length of the store before the allocation.

  Property names are strings and an object keeps its own enumerable properties in
  insertion order. Numbers are only passed around by this code, never computed with;
  they are integers here. Prototype chains, getters and non-enumerable properties are
  not modelled: none of the property names read by the methods is inherited from
  \<^verbatim>\<open>Object.prototype\<close>.
\<close>

datatype jsval = Undefined | Null | JBool bool | JNum int | JStr string | Ref nat

text \<open>
  A function is either the arrow function \<^verbatim>\<open>() => {}\<close> written in the methods, or a
  function that comes from outside the class (a caller's callback), known by a number.
\<close>

datatype fn = Noop | Host nat

text \<open>
  What \<^verbatim>\<open>extend\<close> and \<^verbatim>\<open>typeof\<close> can tell about an object: a plain object, an array, a
  function, or an instance of some class (a Buffer, a stream, an Error). The error made
  by \<^verbatim>\<open>getMissingParams\<close> records the names it found missing.
\<close>

datatype kind = PlainObject | Array | Function fn | Instance | MissingParamsError "string list"

record obj =
  kind :: kind
  props :: "(string \<times> jsval) list"

type_synonym heap = "obj list"

definition alloc :: "obj \<Rightarrow> heap \<Rightarrow> jsval \<times> heap" where
  "alloc ob h = (Ref (length h), h @ [ob])"

text \<open>An object literal \<^verbatim>\<open>{ k1: v1, ... }\<close>: a new plain object with these properties.\<close>

definition object_literal :: "(string \<times> jsval) list \<Rightarrow> heap \<Rightarrow> jsval \<times> heap" where
  "object_literal ps h = alloc \<lparr>kind = PlainObject, props = ps\<rparr> h"

text \<open>The arrow function \<^verbatim>\<open>() => {}\<close>: a new function object.\<close>

definition arrow_noop :: "heap \<Rightarrow> jsval \<times> heap" where
  "arrow_noop h = alloc \<lparr>kind = Function Noop, props = []\<rparr> h"

text \<open>Decimal digits of a natural number: the property names of a string's characters.\<close>

fun show_nat :: "nat \<Rightarrow> string" where
  "show_nat n =
     (if n < 10 then [char_of (48 + n)]
      else show_nat (n div 10) @ [char_of (48 + n mod 10)])"

definition string_props :: "string \<Rightarrow> (string \<times> jsval) list" where
  "string_props s = zip (map show_nat [0..<length s]) (map (\<lambda>c. JStr [c]) s)"

text \<open>
  The enumerable properties of a value: those of the object a reference points to; the
  characters of a string under their indices; none for the other primitives.
\<close>

fun props_of :: "heap \<Rightarrow> jsval \<Rightarrow> (string \<times> jsval) list" where
  "props_of h (Ref a) = (if a < length h then props (h ! a) else [])"
| "props_of h (JStr s) = string_props s"
| "props_of h v = []"

text \<open>\<^verbatim>\<open>for (name in v)\<close> enumerates these names.\<close>

definition keys_of :: "heap \<Rightarrow> jsval \<Rightarrow> string list" where
  "keys_of h v = map fst (props_of h v)"

text \<open>
  The value a property read \<^verbatim>\<open>v.k\<close> or \<^verbatim>\<open>v[k]\<close> gives when \<open>v\<close> is neither \<^verbatim>\<open>undefined\<close> nor
  \<^verbatim>\<open>null\<close>: \<^verbatim>\<open>undefined\<close> when there is no such property. The code reads this way from the
  objects it has made itself and from the sources of \<^verbatim>\<open>extend\<close>, which skips \<^verbatim>\<open>undefined\<close> and
  \<^verbatim>\<open>null\<close>.
\<close>

definition get_prop :: "heap \<Rightarrow> jsval \<Rightarrow> string \<Rightarrow> jsval" where
  "get_prop h v k = (case map_of (props_of h v) k of Some x \<Rightarrow> x | None \<Rightarrow> Undefined)"

text \<open>
  A property read from a value that may be anything, as \<^verbatim>\<open>this._options\<close> is: from
  \<^verbatim>\<open>undefined\<close> and from \<^verbatim>\<open>null\<close> it throws a TypeError, and there is no value.
\<close>

definition read_prop :: "heap \<Rightarrow> jsval \<Rightarrow> string \<Rightarrow> jsval option" where
  "read_prop h v k = (if v = Undefined \<or> v = Null then None else Some (get_prop h v k))"

text \<open>
  A property write \<^verbatim>\<open>target[k] = v\<close>: a property that exists keeps its place, a new one
  goes last.
\<close>

definition set_prop :: "heap \<Rightarrow> nat \<Rightarrow> string \<Rightarrow> jsval \<Rightarrow> heap" where
  "set_prop h a k v = h[a := (h ! a)\<lparr>props := AList.update k v (props (h ! a))\<rparr>]"

fun truthy :: "jsval \<Rightarrow> bool" where
  "truthy Undefined = False"
| "truthy Null = False"
| "truthy (JBool b) = b"
| "truthy (JNum n) = (n \<noteq> 0)"
| "truthy (JStr s) = (s \<noteq> [])"
| "truthy (Ref a) = True"

fun kind_of :: "heap \<Rightarrow> jsval \<Rightarrow> kind option" where
  "kind_of h (Ref a) = (if a < length h then Some (kind (h ! a)) else None)"
| "kind_of h v = None"

text \<open>\<^verbatim>\<open>typeof v === 'function'\<close>\<close>

definition typeof_function :: "heap \<Rightarrow> jsval \<Rightarrow> bool" where
  "typeof_function h v = (case kind_of h v of Some (Function f) \<Rightarrow> True | _ \<Rightarrow> False)"

definition isPlainObject :: "heap \<Rightarrow> jsval \<Rightarrow> bool" where
  "isPlainObject h v = (kind_of h v = Some PlainObject)"

definition isArray :: "heap \<Rightarrow> jsval \<Rightarrow> bool" where
  "isArray h v = (kind_of h v = Some Array)"

section \<open>The \<^verbatim>\<open>extend\<close> package\<close>

text \<open>
  \<^verbatim>\<open>extend([deep,] target, ...sources)\<close> copies the properties of each source into the
  target and returns the target. Its loop over one source:
  \<^verbatim>\<open>
  for (name in options) {
    src = getProperty(target, name);
    copy = getProperty(options, name);
    if (target !== copy) {
      if (deep && copy && (isPlainObject(copy) || (copyIsArray = isArray(copy)))) {
        if (copyIsArray) { copyIsArray = false; clone = src && isArray(src) ? src : []; }
        else { clone = src && isPlainObject(src) ? src : {}; }
        setProperty(target, { name: name, newValue: extend(deep, clone, copy) });
      } else if (typeof copy !== 'undefined') {
        setProperty(target, { name: name, newValue: copy });
      }
    }
  }
  \<close>
  The names are those the source has when the loop starts; each value is read when its
  turn comes. The first argument bounds the depth of the nested calls: a deep copy of an
  object nested more deeply does not complete (the call stack is finite), and the result
  is \<open>None\<close>.
\<close>

fun extend_into :: "nat \<Rightarrow> bool \<Rightarrow> nat \<Rightarrow> jsval \<Rightarrow> string list \<Rightarrow> heap \<Rightarrow> heap option" where
  "extend_into n deep target options [] h = Some h"
| "extend_into n deep target options (name # names) h =
     (let src = get_prop h (Ref target) name;
          copy = get_prop h options name
      in if copy = Ref target then extend_into n deep target options names h
         else if deep \<and> (isPlainObject h copy \<or> isArray h copy) then
           (case n of
              0 \<Rightarrow> None
            | Suc m \<Rightarrow>
                (let (clone, h1) =
                       (if isArray h copy
                        then (if isArray h src then (src, h)
                              else alloc \<lparr>kind = Array, props = []\<rparr> h)
                        else (if isPlainObject h src then (src, h)
                              else alloc \<lparr>kind = PlainObject, props = []\<rparr> h))
                 in case clone of
                      Ref c \<Rightarrow>
                        (case extend_into m deep c copy (keys_of h1 copy) h1 of
                           None \<Rightarrow> None
                         | Some h2 \<Rightarrow>
                             extend_into n deep target options names
                               (set_prop h2 target name clone))
                    | _ \<Rightarrow> None))
         else if copy \<noteq> Undefined then
           extend_into n deep target options names (set_prop h target name copy)
         else extend_into n deep target options names h)"

text \<open>The sources in turn; \<^verbatim>\<open>null\<close> and \<^verbatim>\<open>undefined\<close> sources are skipped.\<close>

fun extend_sources :: "nat \<Rightarrow> bool \<Rightarrow> nat \<Rightarrow> jsval list \<Rightarrow> heap \<Rightarrow> heap option" where
  "extend_sources n deep target [] h = Some h"
| "extend_sources n deep target (options # rest) h =
     (if options = Undefined \<or> options = Null then extend_sources n deep target rest h
      else case extend_into n deep target options (keys_of h options) h of
             None \<Rightarrow> None
           | Some h1 \<Rightarrow> extend_sources n deep target rest h1)"

text \<open>A target that is not an object is replaced by a new \<^verbatim>\<open>{}\<close>.\<close>

definition extend :: "nat \<Rightarrow> bool \<Rightarrow> jsval \<Rightarrow> jsval list \<Rightarrow> heap \<Rightarrow> (jsval \<times> heap) option" where
  "extend n deep target sources h =
     (let (t, h1) = (case target of Ref a \<Rightarrow> (target, h) | _ \<Rightarrow> object_literal [] h)
      in case t of
           Ref a \<Rightarrow> map_option (Pair t) (extend_sources n deep a sources h1)
         | _ \<Rightarrow> None)"

section \<open>The helpers of lib/\<close>

text \<open>
  Modelled from the spec: \<^verbatim>\<open>getMissingParams\<close> of lib/helper is imported by v2.ts but is
  not among the sources. The spec limits parameter validation to presence checks, and the
  methods treat the result as an error when it is truthy. So: the required names that the
  object does not have are collected; with none missing the result is \<^verbatim>\<open>null\<close>, otherwise
  a new error object that records them.
\<close>

definition getMissingParams :: "jsval \<Rightarrow> string list \<Rightarrow> heap \<Rightarrow> jsval \<times> heap" where
  "getMissingParams params requires h =
     (let missing = filter (\<lambda>r. r \<notin> set (keys_of h params)) requires
      in if missing = [] then (Null, h)
         else alloc \<lparr>kind = MissingParamsError missing, props = []\<rparr> h)"

text \<open>
  Every method ends in \<^verbatim>\<open>return _callback(missingParams)\<close> or in
  \<^verbatim>\<open>return createRequest(parameters, _callback)\<close>. \<^verbatim>\<open>createRequest\<close> (lib/requestwrapper)
  is not among the sources either; a method's result is the call it ends in, with the
  arguments it passes, and the store at that moment.
\<close>

datatype tailcall =
    Call_callback jsval "jsval list"
  | Call_createRequest "jsval list"

section \<open>The endpoint methods of LanguageTranslatorV2\<close>

text \<open>
  Each method takes the depth bound of \<^verbatim>\<open>extend\<close>, the receiver \<^verbatim>\<open>this\<close>, the arguments
  \<^verbatim>\<open>params\<close> and \<^verbatim>\<open>callback\<close> (an omitted argument is \<^verbatim>\<open>undefined\<close>) and the store.
  The locals \<^verbatim>\<open>_params\<close> and \<^verbatim>\<open>_callback\<close> are written \<open>params'\<close> and \<open>callback'\<close>.
  The result is \<open>None\<close> when the call throws instead of reaching one of its two tail
  calls: a TypeError at \<^verbatim>\<open>this._options\<close> when the receiver is \<^verbatim>\<open>undefined\<close> or \<^verbatim>\<open>null\<close>, or the
  deep copy of the options running out of stack.
\<close>

definition translate ::
  "nat \<Rightarrow> jsval \<Rightarrow> jsval \<Rightarrow> jsval \<Rightarrow> heap \<Rightarrow> (tailcall \<times> heap) option" where
  "translate stack this params callback h0 = do {
     let (e, h) = object_literal [] h0;
     (params', h) \<leftarrow> extend stack False e [params] h;
     let (callback', h) = (if truthy callback then (callback, h) else arrow_noop h);
     let requiredParams = [''text''];
     let (missingParams, h) = getMissingParams params' requiredParams h;
     if truthy missingParams then Some (Call_callback callback' [missingParams], h)
     else do {
       let (body, h) = object_literal
             [(''text'', get_prop h params' ''text''),
              (''model_id'', get_prop h params' ''model_id''),
              (''source'', get_prop h params' ''source''),
              (''target'', get_prop h params' ''target'')] h;
       let (options, h) = object_literal
             [(''url'', JStr ''/v2/translate''),
              (''method'', JStr ''POST''),
              (''json'', JBool True),
              (''body'', body)] h;
       let (e, h) = object_literal [] h;
       this_options \<leftarrow> read_prop h this ''_options'';
       let (headers, h) = object_literal
             [(''Accept'', JStr ''application/json''),
              (''Content-Type'', JStr ''application/json'')] h;
       let (hs, h) = object_literal [(''headers'', headers)] h;
       (defaultOptions, h) \<leftarrow> extend stack True e [this_options, hs] h;
       let (parameters, h) = object_literal
             [(''options'', options), (''defaultOptions'', defaultOptions)] h;
       Some (Call_createRequest [parameters, callback'], h)
     }
   }"

definition identify ::
  "nat \<Rightarrow> jsval \<Rightarrow> jsval \<Rightarrow> jsval \<Rightarrow> heap \<Rightarrow> (tailcall \<times> heap) option" where
  "identify stack this params callback h0 = do {
     let (e, h) = object_literal [] h0;
     (params', h) \<leftarrow> extend stack False e [params] h;
     let (callback', h) = (if truthy callback then (callback, h) else arrow_noop h);
     let requiredParams = [''text''];
     let (missingParams, h) = getMissingParams params' requiredParams h;
     if truthy missingParams then Some (Call_callback callback' [missingParams], h)
     else do {
       let body = get_prop h params' ''text'';
       let (options, h) = object_literal
             [(''url'', JStr ''/v2/identify''),
              (''method'', JStr ''POST''),
              (''json'', JBool False),
              (''body'', body)] h;
       let (e, h) = object_literal [] h;
       this_options \<leftarrow> read_prop h this ''_options'';
       let (headers, h) = object_literal
             [(''Accept'', JStr ''application/json''),
              (''Content-Type'', JStr ''text/plain'')] h;
       let (hs, h) = object_literal [(''headers'', headers)] h;
       (defaultOptions, h) \<leftarrow> extend stack True e [this_options, hs] h;
       let (parameters, h) = object_literal
             [(''options'', options), (''defaultOptions'', defaultOptions)] h;
       Some (Call_createRequest [parameters, callback'], h)
     }
   }"

definition identifyPlain ::
  "nat \<Rightarrow> jsval \<Rightarrow> jsval \<Rightarrow> jsval \<Rightarrow> heap \<Rightarrow> (tailcall \<times> heap) option" where
  "identifyPlain stack this params callback h0 = do {
     let (e, h) = object_literal [] h0;
     (params', h) \<leftarrow> extend stack False e [params] h;
     let (callback', h) = (if truthy callback then (callback, h) else arrow_noop h);
     let requiredParams = [''text''];
     let (missingParams, h) = getMissingParams params' requiredParams h;
     if truthy missingParams then Some (Call_callback callback' [missingParams], h)
     else do {
       let body = get_prop h params' ''text'';
       let (options, h) = object_literal
             [(''url'', JStr ''/v2/identify''),
              (''method'', JStr ''POST''),
              (''json'', JBool False),
              (''body'', body)] h;
       let (e, h) = object_literal [] h;
       this_options \<leftarrow> read_prop h this ''_options'';
       let (headers, h) = object_literal
             [(''Accept'', JStr ''text/plain''),
              (''Content-Type'', JStr ''text/plain'')] h;
       let (hs, h) = object_literal [(''headers'', headers)] h;
       (defaultOptions, h) \<leftarrow> extend stack True e [this_options, hs] h;
       let (parameters, h) = object_literal
             [(''options'', options), (''defaultOptions'', defaultOptions)] h;
       Some (Call_createRequest [parameters, callback'], h)
     }
   }"

text \<open>
  The two methods without required parameters accept the callback as their only
  argument: \<^verbatim>\<open>typeof params === 'function' && !callback\<close>.
\<close>

definition listIdentifiableLanguages ::
  "nat \<Rightarrow> jsval \<Rightarrow> jsval \<Rightarrow> jsval \<Rightarrow> heap \<Rightarrow> (tailcall \<times> heap) option" where
  "listIdentifiableLanguages stack this params callback h0 = do {
     (params', h) \<leftarrow>
        (if typeof_function h0 params \<and> \<not> truthy callback then Some (object_literal [] h0)
         else (let (e, h) = object_literal [] h0 in extend stack False e [params] h));
     let (callback', h) =
        (if typeof_function h params \<and> \<not> truthy callback then (params, h)
         else if truthy callback then (callback, h) else arrow_noop h);
     let (options, h) = object_literal
           [(''url'', JStr ''/v2/identifiable_languages''),
            (''method'', JStr ''GET'')] h;
     let (e, h) = object_literal [] h;
     this_options \<leftarrow> read_prop h this ''_options'';
     let (headers, h) = object_literal [(''Accept'', JStr ''application/json'')] h;
     let (hs, h) = object_literal [(''headers'', headers)] h;
     (defaultOptions, h) \<leftarrow> extend stack True e [this_options, hs] h;
     let (parameters, h) = object_literal
           [(''options'', options), (''defaultOptions'', defaultOptions)] h;
     Some (Call_createRequest [parameters, callback'], h)
   }"

definition createModel ::
  "nat \<Rightarrow> jsval \<Rightarrow> jsval \<Rightarrow> jsval \<Rightarrow> heap \<Rightarrow> (tailcall \<times> heap) option" where
  "createModel stack this params callback h0 = do {
     let (e, h) = object_literal [] h0;
     (params', h) \<leftarrow> extend stack False e [params] h;
     let (callback', h) = (if truthy callback then (callback, h) else arrow_noop h);
     let requiredParams = [''base_model_id''];
     let (missingParams, h) = getMissingParams params' requiredParams h;
     if truthy missingParams then Some (Call_callback callback' [missingParams], h)
     else do {
       let (forced_glossary, h) = object_literal
             [(''data'', get_prop h params' ''forced_glossary''),
              (''contentType'', JStr ''application/octet-stream'')] h;
       let (parallel_corpus, h) = object_literal
             [(''data'', get_prop h params' ''parallel_corpus''),
              (''contentType'', JStr ''application/octet-stream'')] h;
       let (monolingual_corpus, h) = object_literal
             [(''data'', get_prop h params' ''monolingual_corpus''),
              (''contentType'', JStr ''text/plain'')] h;
       let (formData, h) = object_literal
             [(''forced_glossary'', forced_glossary),
              (''parallel_corpus'', parallel_corpus),
              (''monolingual_corpus'', monolingual_corpus)] h;
       let (query, h) = object_literal
             [(''base_model_id'', get_prop h params' ''base_model_id''),
              (''name'', get_prop h params' ''name'')] h;
       let (options, h) = object_literal
             [(''url'', JStr ''/v2/models''),
              (''method'', JStr ''POST''),
              (''qs'', query),
              (''formData'', formData)] h;
       let (e, h) = object_literal [] h;
       this_options \<leftarrow> read_prop h this ''_options'';
       let (headers, h) = object_literal
             [(''Accept'', JStr ''application/json''),
              (''Content-Type'', JStr ''multipart/form-data'')] h;
       let (hs, h) = object_literal [(''headers'', headers)] h;
       (defaultOptions, h) \<leftarrow> extend stack True e [this_options, hs] h;
       let (parameters, h) = object_literal
             [(''options'', options), (''defaultOptions'', defaultOptions)] h;
       Some (Call_createRequest [parameters, callback'], h)
     }
   }"

definition deleteModel ::
  "nat \<Rightarrow> jsval \<Rightarrow> jsval \<Rightarrow> jsval \<Rightarrow> heap \<Rightarrow> (tailcall \<times> heap) option" where
  "deleteModel stack this params callback h0 = do {
     let (e, h) = object_literal [] h0;
     (params', h) \<leftarrow> extend stack False e [params] h;
     let (callback', h) = (if truthy callback then (callback, h) else arrow_noop h);
     let requiredParams = [''model_id''];
     let (missingParams, h) = getMissingParams params' requiredParams h;
     if truthy missingParams then Some (Call_callback callback' [missingParams], h)
     else do {
       let (path, h) = object_literal [(''model_id'', get_prop h params' ''model_id'')] h;
       let (options, h) = object_literal
             [(''url'', JStr ''/v2/models/{model_id}''),
              (''method'', JStr ''DELETE''),
              (''path'', path)] h;
       let (e, h) = object_literal [] h;
       this_options \<leftarrow> read_prop h this ''_options'';
       let (headers, h) = object_literal [(''Accept'', JStr ''application/json'')] h;
       let (hs, h) = object_literal [(''headers'', headers)] h;
       (defaultOptions, h) \<leftarrow> extend stack True e [this_options, hs] h;
       let (parameters, h) = object_literal
             [(''options'', options), (''defaultOptions'', defaultOptions)] h;
       Some (Call_createRequest [parameters, callback'], h)
     }
   }"

definition getModel ::
  "nat \<Rightarrow> jsval \<Rightarrow> jsval \<Rightarrow> jsval \<Rightarrow> heap \<Rightarrow> (tailcall \<times> heap) option" where
  "getModel stack this params callback h0 = do {
     let (e, h) = object_literal [] h0;
     (params', h) \<leftarrow> extend stack False e [params] h;
     let (callback', h) = (if truthy callback then (callback, h) else arrow_noop h);
     let requiredParams = [''model_id''];
     let (missingParams, h) = getMissingParams params' requiredParams h;
     if truthy missingParams then Some (Call_callback callback' [missingParams], h)
     else do {
       let (path, h) = object_literal [(''model_id'', get_prop h params' ''model_id'')] h;
       let (options, h) = object_literal
             [(''url'', JStr ''/v2/models/{model_id}''),
              (''method'', JStr ''GET''),
              (''path'', path)] h;
       let (e, h) = object_literal [] h;
       this_options \<leftarrow> read_prop h this ''_options'';
       let (headers, h) = object_literal [(''Accept'', JStr ''application/json'')] h;
       let (hs, h) = object_literal [(''headers'', headers)] h;
       (defaultOptions, h) \<leftarrow> extend stack True e [this_options, hs] h;
       let (parameters, h) = object_literal
             [(''options'', options), (''defaultOptions'', defaultOptions)] h;
       Some (Call_createRequest [parameters, callback'], h)
     }
   }"

definition listModels ::
  "nat \<Rightarrow> jsval \<Rightarrow> jsval \<Rightarrow> jsval \<Rightarrow> heap \<Rightarrow> (tailcall \<times> heap) option" where
  "listModels stack this params callback h0 = do {
     (params', h) \<leftarrow>
        (if typeof_function h0 params \<and> \<not> truthy callback then Some (object_literal [] h0)
         else (let (e, h) = object_literal [] h0 in extend stack False e [params] h));
     let (callback', h) =
        (if typeof_function h params \<and> \<not> truthy callback then (params, h)
         else if truthy callback then (callback, h) else arrow_noop h);
     let (query, h) = object_literal
           [(''source'', get_prop h params' ''source''),
            (''target'', get_prop h params' ''target''),
            (''default'', get_prop h params' ''default_models'')] h;
     let (options, h) = object_literal
           [(''url'', JStr ''/v2/models''),
            (''method'', JStr ''GET''),
            (''qs'', query)] h;
     let (e, h) = object_literal [] h;
     this_options \<leftarrow> read_prop h this ''_options'';
     let (headers, h) = object_literal [(''Accept'', JStr ''application/json'')] h;
     let (hs, h) = object_literal [(''headers'', headers)] h;
     (defaultOptions, h) \<leftarrow> extend stack True e [this_options, hs] h;
     let (parameters, h) = object_literal
           [(''options'', options), (''defaultOptions'', defaultOptions)] h;
     Some (Call_createRequest [parameters, callback'], h)
   }"

section \<open>Notions used in the proofs\<close>

text \<open>What a deep \<^verbatim>\<open>extend\<close> clones instead of sharing: plain objects and arrays.\<close>

definition cloneable :: "heap \<Rightarrow> jsval \<Rightarrow> bool" where
  "cloneable h v = (isPlainObject h v \<or> isArray h v)"

text \<open>The target of the nested call \<^verbatim>\<open>extend(deep, clone, copy)\<close>, and the store with it.\<close>

definition clone_for :: "heap \<Rightarrow> jsval \<Rightarrow> jsval \<Rightarrow> jsval \<times> heap" where
  "clone_for h src copy =
     (if isArray h copy
      then (if isArray h src then (src, h) else alloc \<lparr>kind = Array, props = []\<rparr> h)
      else (if isPlainObject h src then (src, h) else alloc \<lparr>kind = PlainObject, props = []\<rparr> h))"

text \<open>
  \<open>keeps P h h'\<close>: the store has only grown and the objects at the addresses in \<open>P\<close> are
  what they were.
\<close>

definition keeps :: "nat set \<Rightarrow> heap \<Rightarrow> heap \<Rightarrow> bool" where
  "keeps P h h' = (length h \<le> length h' \<and> (\<forall>a\<in>P. h' ! a = h ! a))"

text \<open>
  \<open>owned P h\<close>: no object outside \<open>P\<close> has a property that refers to a plain object or an
  array inside \<open>P\<close>. A deep \<^verbatim>\<open>extend\<close> writes to its target and to the plain objects and
  arrays the target refers to; under this invariant none of them is in \<open>P\<close>.
\<close>

definition owned :: "nat set \<Rightarrow> heap \<Rightarrow> bool" where
  "owned P h = (\<forall>a<length h. a \<notin> P \<longrightarrow>
     (\<forall>k b. (k, Ref b) \<in> set (props (h ! a)) \<longrightarrow> b \<in> P \<longrightarrow> \<not> cloneable h (Ref b)))"

text \<open>\<open>region Q h\<close>: the objects in \<open>Q\<close> refer to objects in \<open>Q\<close> only.\<close>

definition region :: "nat set \<Rightarrow> heap \<Rightarrow> bool" where
  "region Q h = (\<forall>a\<in>Q. \<forall>k b. (k, Ref b) \<in> set (props (h ! a)) \<longrightarrow> b \<in> Q)"

definition in_region :: "nat set \<Rightarrow> jsval \<Rightarrow> bool" where
  "in_region Q v = (\<forall>b. v = Ref b \<longrightarrow> b \<in> Q)"

text \<open>
  \<open>agree X h g\<close>: two stores of the same size that differ at most at the addresses in \<open>X\<close>;
  \<open>unreached X h\<close>: no object outside \<open>X\<close> refers into \<open>X\<close>.
\<close>

definition agree :: "nat set \<Rightarrow> heap \<Rightarrow> heap \<Rightarrow> bool" where
  "agree X h g = (length g = length h \<and> (\<forall>a<length h. a \<notin> X \<longrightarrow> g ! a = h ! a))"

definition unreached :: "nat set \<Rightarrow> heap \<Rightarrow> bool" where
  "unreached X h = (\<forall>a<length h. a \<notin> X \<longrightarrow> (\<forall>k b. (k, Ref b) \<in> set (props (h ! a)) \<longrightarrow> b \<notin> X))"

text \<open>
  The properties a loop of \<^verbatim>\<open>extend\<close> leaves in its target when no value is cloned: each
  value of the source that is neither \<^verbatim>\<open>undefined\<close> nor the target itself is assigned.
\<close>

fun copy_props ::
  "heap \<Rightarrow> jsval \<Rightarrow> nat \<Rightarrow> string list \<Rightarrow> (string \<times> jsval) list \<Rightarrow> (string \<times> jsval) list" where
  "copy_props h s t [] acc = acc"
| "copy_props h s t (k # ks) acc =
     (let v = get_prop h s k
      in if v = Ref t \<or> v = Undefined then copy_props h s t ks acc
         else copy_props h s t ks (AList.update k v acc))"

text \<open>
  The end of every method: the per-method default headers are merged into a deep copy
  of the options of the instance,
  \<^verbatim>\<open>extend(true, {}, this._options, { headers: { ... } })\<close>.
\<close>

definition default_options ::
  "nat \<Rightarrow> jsval \<Rightarrow> (string \<times> jsval) list \<Rightarrow> heap \<Rightarrow> (jsval \<times> heap) option" where
  "default_options stack this hdrs h0 = do {
     let (e, h) = object_literal [] h0;
     this_options \<leftarrow> read_prop h this ''_options'';
     let (headers, h) = object_literal hdrs h;
     let (hs, h) = object_literal [(''headers'', headers)] h;
     extend stack True e [this_options, hs] h
   }"

text \<open>The properties of the shallow copy \<^verbatim>\<open>extend({}, params)\<close>.\<close>

definition copied :: "heap \<Rightarrow> jsval \<Rightarrow> (string \<times> jsval) list" where
  "copied h params = copy_props h params (length h) (keys_of h params) []"

section \<open>Well-formed calls\<close>

text \<open>
  A store is closed when every reference kept in an object points to an object of the
  store; a value is in the store when it is not a dangling reference.
\<close>

definition heap_closed :: "heap \<Rightarrow> bool" where
  "heap_closed h =
     (\<forall>ob \<in> set h. \<forall>(k, v) \<in> set (props ob). case v of Ref b \<Rightarrow> b < length h | _ \<Rightarrow> True)"

definition in_heap :: "heap \<Rightarrow> jsval \<Rightarrow> bool" where
  "in_heap h v = (case v of Ref a \<Rightarrow> a < length h | _ \<Rightarrow> True)"

text \<open>
  \<open>nests_within n h v\<close>: the plain objects and arrays below \<open>v\<close> are nested at most \<open>n\<close>
  deep, so that a deep \<^verbatim>\<open>extend\<close> from \<open>v\<close> needs at most \<open>n\<close> nested calls.
\<close>

primrec nests_within :: "nat \<Rightarrow> heap \<Rightarrow> jsval \<Rightarrow> bool" where
  "nests_within 0 h v = (\<forall>(k, c) \<in> set (props_of h v). \<not> cloneable h c)"
| "nests_within (Suc n) h v =
     (\<forall>(k, c) \<in> set (props_of h v). cloneable h c \<longrightarrow> nests_within n h c)"

text \<open>
  A call is well formed when the store is closed, the receiver and the arguments are in
  it, the receiver is neither \<^verbatim>\<open>undefined\<close> nor \<^verbatim>\<open>null\<close> (the method is called on an
  instance, not detached from it), and the options of the instance nest within the depth
  that \<^verbatim>\<open>extend\<close> may use, which is at least one (the per-method headers are one level
  below the options).
\<close>

definition well_formed_call :: "nat \<Rightarrow> jsval \<Rightarrow> jsval \<Rightarrow> jsval \<Rightarrow> heap \<Rightarrow> bool" where
  "well_formed_call stack this params callback h =
     (heap_closed h \<and> in_heap h this \<and> in_heap h params \<and> in_heap h callback \<and>
      this \<noteq> Undefined \<and> this \<noteq> Null \<and>
      0 < stack \<and> nests_within stack h (get_prop h this ''_options''))"

text \<open>A field is present in an object when reading it gives something other than \<^verbatim>\<open>undefined\<close>.\<close>

definition present :: "heap \<Rightarrow> jsval \<Rightarrow> string \<Rightarrow> bool" where
  "present h params k = (get_prop h params k \<noteq> Undefined)"

section \<open>The common shape of the methods\<close>

text \<open>
  The eight methods differ in their required parameters, in the object literals they
  build for the request, in their default headers, and in whether they accept the
  callback as their only argument. The literals of each method, given a reader \<open>rd\<close> of
  the fields of \<^verbatim>\<open>_params\<close> and the address \<open>n\<close> of the first literal; the last literal is
  \<^verbatim>\<open>parameters.options\<close>.
\<close>

definition translate_literals :: "(string \<Rightarrow> jsval) \<Rightarrow> nat \<Rightarrow> obj list" where
  "translate_literals rd n =
     [\<lparr>kind = PlainObject, props =
         [(''text'', rd ''text''), (''model_id'', rd ''model_id''),
          (''source'', rd ''source''), (''target'', rd ''target'')]\<rparr>,
      \<lparr>kind = PlainObject, props =
         [(''url'', JStr ''/v2/translate''), (''method'', JStr ''POST''),
          (''json'', JBool True), (''body'', Ref n)]\<rparr>]"

definition identify_literals :: "(string \<Rightarrow> jsval) \<Rightarrow> nat \<Rightarrow> obj list" where
  "identify_literals rd n =
     [\<lparr>kind = PlainObject, props =
         [(''url'', JStr ''/v2/identify''), (''method'', JStr ''POST''),
          (''json'', JBool False), (''body'', rd ''text'')]\<rparr>]"

definition listIdentifiableLanguages_literals :: "(string \<Rightarrow> jsval) \<Rightarrow> nat \<Rightarrow> obj list" where
  "listIdentifiableLanguages_literals rd n =
     [\<lparr>kind = PlainObject, props =
         [(''url'', JStr ''/v2/identifiable_languages''), (''method'', JStr ''GET'')]\<rparr>]"

definition createModel_literals :: "(string \<Rightarrow> jsval) \<Rightarrow> nat \<Rightarrow> obj list" where
  "createModel_literals rd n =
     [\<lparr>kind = PlainObject, props =
         [(''data'', rd ''forced_glossary''), (''contentType'', JStr ''application/octet-stream'')]\<rparr>,
      \<lparr>kind = PlainObject, props =
         [(''data'', rd ''parallel_corpus''), (''contentType'', JStr ''application/octet-stream'')]\<rparr>,
      \<lparr>kind = PlainObject, props =
         [(''data'', rd ''monolingual_corpus''), (''contentType'', JStr ''text/plain'')]\<rparr>,
      \<lparr>kind = PlainObject, props =
         [(''forced_glossary'', Ref n), (''parallel_corpus'', Ref (Suc n)),
          (''monolingual_corpus'', Ref (Suc (Suc n)))]\<rparr>,
      \<lparr>kind = PlainObject, props =
         [(''base_model_id'', rd ''base_model_id''), (''name'', rd ''name'')]\<rparr>,
      \<lparr>kind = PlainObject, props =
         [(''url'', JStr ''/v2/models''), (''method'', JStr ''POST''),
          (''qs'', Ref (Suc (Suc (Suc (Suc n))))), (''formData'', Ref (Suc (Suc (Suc n))))]\<rparr>]"

definition model_literals :: "string \<Rightarrow> (string \<Rightarrow> jsval) \<Rightarrow> nat \<Rightarrow> obj list" where
  "model_literals method rd n =
     [\<lparr>kind = PlainObject, props = [(''model_id'', rd ''model_id'')]\<rparr>,
      \<lparr>kind = PlainObject, props =
         [(''url'', JStr ''/v2/models/{model_id}''), (''method'', JStr method),
          (''path'', Ref n)]\<rparr>]"

definition listModels_literals :: "(string \<Rightarrow> jsval) \<Rightarrow> nat \<Rightarrow> obj list" where
  "listModels_literals rd n =
     [\<lparr>kind = PlainObject, props =
         [(''source'', rd ''source''), (''target'', rd ''target''),
          (''default'', rd ''default_models'')]\<rparr>,
      \<lparr>kind = PlainObject, props =
         [(''url'', JStr ''/v2/models''), (''method'', JStr ''GET''), (''qs'', Ref n)]\<rparr>]"

text \<open>
  The skeleton, with the shallow copy of \<^verbatim>\<open>params\<close> in closed form. \<open>swap\<close> says whether
  the method tests \<^verbatim>\<open>typeof params === 'function' && !callback\<close>. Its parts: whether the
  callback came first; the properties of \<^verbatim>\<open>_params\<close>; the function object made for an
  omitted callback; \<^verbatim>\<open>_callback\<close>; the store when the required parameters are checked; the
  required names that are missing; the store when \<^verbatim>\<open>extend\<close> is called for the default
  options.
\<close>

definition lookup :: "(string \<times> jsval) list \<Rightarrow> string \<Rightarrow> jsval" where
  "lookup ps k = (case map_of ps k of Some v \<Rightarrow> v | None \<Rightarrow> Undefined)"

definition fn_first :: "bool \<Rightarrow> heap \<Rightarrow> jsval \<Rightarrow> jsval \<Rightarrow> bool" where
  "fn_first swap h0 params callback = (swap \<and> typeof_function h0 params \<and> \<not> truthy callback)"

definition params_props :: "bool \<Rightarrow> heap \<Rightarrow> jsval \<Rightarrow> jsval \<Rightarrow> (string \<times> jsval) list" where
  "params_props swap h0 params callback =
     (if fn_first swap h0 params callback then [] else copied h0 params)"

definition callback_objs :: "bool \<Rightarrow> heap \<Rightarrow> jsval \<Rightarrow> jsval \<Rightarrow> obj list" where
  "callback_objs swap h0 params callback =
     (if fn_first swap h0 params callback \<or> truthy callback then []
      else [\<lparr>kind = Function Noop, props = []\<rparr>])"

definition effective_callback :: "bool \<Rightarrow> heap \<Rightarrow> jsval \<Rightarrow> jsval \<Rightarrow> jsval" where
  "effective_callback swap h0 params callback =
     (if fn_first swap h0 params callback then params
      else if truthy callback then callback
      else Ref (Suc (length h0)))"

definition before_check :: "bool \<Rightarrow> heap \<Rightarrow> jsval \<Rightarrow> jsval \<Rightarrow> heap" where
  "before_check swap h0 params callback =
     h0 @ [\<lparr>kind = PlainObject, props = params_props swap h0 params callback\<rparr>]
        @ callback_objs swap h0 params callback"

text \<open>Where the first literal of a method without \<open>swap\<close> is allocated.\<close>

definition first_literal :: "heap \<Rightarrow> jsval \<Rightarrow> nat" where
  "first_literal h0 callback = Suc (length h0) + (if truthy callback then 0 else 1)"

definition missing_params :: "string list \<Rightarrow> (string \<times> jsval) list \<Rightarrow> string list" where
  "missing_params required ps = filter (\<lambda>r. r \<notin> fst ` set ps) required"

definition before_options ::
  "((string \<Rightarrow> jsval) \<Rightarrow> nat \<Rightarrow> obj list) \<Rightarrow> bool \<Rightarrow> heap \<Rightarrow> jsval \<Rightarrow> jsval \<Rightarrow> heap" where
  "before_options literals swap h0 params callback =
     before_check swap h0 params callback
       @ literals (lookup (params_props swap h0 params callback))
           (length (before_check swap h0 params callback))"

definition endpoint ::
  "string list \<Rightarrow> ((string \<Rightarrow> jsval) \<Rightarrow> nat \<Rightarrow> obj list) \<Rightarrow> (string \<times> jsval) list \<Rightarrow> bool \<Rightarrow>
   nat \<Rightarrow> jsval \<Rightarrow> jsval \<Rightarrow> jsval \<Rightarrow> heap \<Rightarrow> (tailcall \<times> heap) option" where
  "endpoint required literals hdrs swap stack this params callback h0 =
     (let h1 = before_check swap h0 params callback;
          missing = missing_params required (params_props swap h0 params callback)
      in if missing \<noteq> [] then
           Some (Call_callback (effective_callback swap h0 params callback) [Ref (length h1)],
                 h1 @ [\<lparr>kind = MissingParamsError missing, props = []\<rparr>])
         else
           (let h2 = before_options literals swap h0 params callback
            in case default_options stack this hdrs h2 of
                 None \<Rightarrow> None
               | Some (d, h3) \<Rightarrow>
                   Some (Call_createRequest [Ref (length h3), effective_callback swap h0 params callback],
                         h3 @ [\<lparr>kind = PlainObject, props =
                                  [(''options'', Ref (length h2 - 1)), (''defaultOptions'', d)]\<rparr>])))"

section \<open>The class as a whole\<close>

datatype endpoint_method =
    Translate | Identify | IdentifyPlain | ListIdentifiableLanguages
  | CreateModel | DeleteModel | GetModel | ListModels

fun invoke ::
  "endpoint_method \<Rightarrow> nat \<Rightarrow> jsval \<Rightarrow> jsval \<Rightarrow> jsval \<Rightarrow> heap \<Rightarrow> (tailcall \<times> heap) option" where
  "invoke Translate = translate"
| "invoke Identify = identify"
| "invoke IdentifyPlain = identifyPlain"
| "invoke ListIdentifiableLanguages = listIdentifiableLanguages"
| "invoke CreateModel = createModel"
| "invoke DeleteModel = deleteModel"
| "invoke GetModel = getModel"
| "invoke ListModels = listModels"

text \<open>The \<^verbatim>\<open>requiredParams\<close> array of each method; two methods have none.\<close>

fun requiredParams :: "endpoint_method \<Rightarrow> string list" where
  "requiredParams Translate = [''text'']"
| "requiredParams Identify = [''text'']"
| "requiredParams IdentifyPlain = [''text'']"
| "requiredParams ListIdentifiableLanguages = []"
| "requiredParams CreateModel = [''base_model_id'']"
| "requiredParams DeleteModel = [''model_id'']"
| "requiredParams GetModel = [''model_id'']"
| "requiredParams ListModels = []"

text \<open>The methods that test \<^verbatim>\<open>typeof params === 'function' && !callback\<close>.\<close>

fun callback_first :: "endpoint_method \<Rightarrow> bool" where
  "callback_first ListIdentifiableLanguages = True"
| "callback_first ListModels = True"
| "callback_first m = False"

text \<open>Reading along a path of property names: \<^verbatim>\<open>v.k1.k2\<close>.\<close>

fun path_get :: "heap \<Rightarrow> jsval \<Rightarrow> string list \<Rightarrow> jsval" where
  "path_get h v [] = v"
| "path_get h v (k # ks) = path_get h (get_prop h v k) ks"

text \<open>
  The HTTP method and the URL of the request a method hands to \<^verbatim>\<open>createRequest\<close>, if it
  hands one.
\<close>

definition request_target :: "(tailcall \<times> heap) option \<Rightarrow> (jsval \<times> jsval) option" where
  "request_target r =
     (case r of
        Some (Call_createRequest (p # args), h) \<Rightarrow>
          Some (path_get h p [''options'', ''method''], path_get h p [''options'', ''url''])
      | _ \<Rightarrow> None)"

subsection \<open>Performing the call a method ends in\<close>

text \<open>
  A call returns a value or throws one; calling what is not a function is a TypeError.
  Functions from outside the class, and \<^verbatim>\<open>createRequest\<close>, act on the store and on the
  world outside the program (the network, the caller's own state), of some type \<open>'w\<close>;
  what they do is a parameter. The arrow function \<^verbatim>\<open>() => {}\<close> returns \<^verbatim>\<open>undefined\<close> and
  does nothing else.
\<close>

datatype completion = Returned jsval | Threw jsval | TypeError_not_a_function

type_synonym 'w effect = "heap \<times> 'w \<Rightarrow> completion \<times> heap \<times> 'w"

definition call_function :: "(nat \<Rightarrow> jsval list \<Rightarrow> 'w effect) \<Rightarrow> jsval \<Rightarrow> jsval list \<Rightarrow> 'w effect" where
  "call_function host f args = (\<lambda>(h, w).
     case kind_of h f of
       Some (Function Noop) \<Rightarrow> (Returned Undefined, h, w)
     | Some (Function (Host i)) \<Rightarrow> host i args (h, w)
     | _ \<Rightarrow> (TypeError_not_a_function, h, w))"

definition perform ::
  "(nat \<Rightarrow> jsval list \<Rightarrow> 'w effect) \<Rightarrow> (jsval list \<Rightarrow> 'w effect) \<Rightarrow> tailcall \<Rightarrow> 'w effect" where
  "perform host createRequest tc =
     (case tc of
        Call_callback f args \<Rightarrow> call_function host f args
      | Call_createRequest args \<Rightarrow> createRequest args)"

text \<open>
  A whole call of a method: the method runs to the call it ends in, and returns what
  that call returns. \<open>None\<close>: the method threw before it reached that call.
\<close>

definition call_method ::
  "(nat \<Rightarrow> jsval list \<Rightarrow> 'w effect) \<Rightarrow> (jsval list \<Rightarrow> 'w effect) \<Rightarrow> endpoint_method \<Rightarrow>
   nat \<Rightarrow> jsval \<Rightarrow> jsval \<Rightarrow> jsval \<Rightarrow> heap \<times> 'w \<Rightarrow> (completion \<times> heap \<times> 'w) option" where
  "call_method host createRequest m stack this params callback = (\<lambda>(h, w).
     case invoke m stack this params callback h of
       None \<Rightarrow> None
     | Some (tc, h') \<Rightarrow> Some (perform host createRequest tc (h', w)))"

text \<open>The literals and the default headers of each method, for the skeleton.\<close>

fun literals_of :: "endpoint_method \<Rightarrow> (string \<Rightarrow> jsval) \<Rightarrow> nat \<Rightarrow> obj list" where
  "literals_of Translate = translate_literals"
| "literals_of Identify = identify_literals"
| "literals_of IdentifyPlain = identify_literals"
| "literals_of ListIdentifiableLanguages = listIdentifiableLanguages_literals"
| "literals_of CreateModel = createModel_literals"
| "literals_of DeleteModel = model_literals ''DELETE''"
| "literals_of GetModel = model_literals ''GET''"
| "literals_of ListModels = listModels_literals"

fun headers_of :: "endpoint_method \<Rightarrow> (string \<times> jsval) list" where
  "headers_of Translate =
     [(''Accept'', JStr ''application/json''), (''Content-Type'', JStr ''application/json'')]"
| "headers_of Identify =
     [(''Accept'', JStr ''application/json''), (''Content-Type'', JStr ''text/plain'')]"
| "headers_of IdentifyPlain =
     [(''Accept'', JStr ''text/plain''), (''Content-Type'', JStr ''text/plain'')]"
| "headers_of CreateModel =
     [(''Accept'', JStr ''application/json''), (''Content-Type'', JStr ''multipart/form-data'')]"
| "headers_of m = [(''Accept'', JStr ''application/json'')]"

text \<open>The HTTP method and the URL in the options literal of each method.\<close>

fun endpoint_of :: "endpoint_method \<Rightarrow> jsval \<times> jsval" where
  "endpoint_of Translate = (JStr ''POST'', JStr ''/v2/translate'')"
| "endpoint_of Identify = (JStr ''POST'', JStr ''/v2/identify'')"
| "endpoint_of IdentifyPlain = (JStr ''POST'', JStr ''/v2/identify'')"
| "endpoint_of ListIdentifiableLanguages = (JStr ''GET'', JStr ''/v2/identifiable_languages'')"
| "endpoint_of CreateModel = (JStr ''POST'', JStr ''/v2/models'')"
| "endpoint_of DeleteModel = (JStr ''DELETE'', JStr ''/v2/models/{model_id}'')"
| "endpoint_of GetModel = (JStr ''GET'', JStr ''/v2/models/{model_id}'')"
| "endpoint_of ListModels = (JStr ''GET'', JStr ''/v2/models'')"

text \<open>
  Two objects that differ in their \<open>Accept\<close> property only: \<open>'application/json'\<close> in the
  first, \<open>'text/plain'\<close> in the second.
\<close>

definition accept_differs :: "obj \<Rightarrow> obj \<Rightarrow> bool" where
  "accept_differs a b =
     (kind b = kind a \<and> lookup (props a) ''Accept'' = JStr ''application/json'' \<and>
      props b = AList.update ''Accept'' (JStr ''text/plain'') (props a))"

section \<open>A sample store\<close>

text \<open>
  A service instance (address 0) whose options (1) carry a headers object (2); a params
  object (3) for \<^verbatim>\<open>translate\<close> with its array of texts (4); a callback of the caller (5);
  a params object with a model id (6), one with a base model id and a glossary (7, 8), and
  one with a text to identify (9).
\<close>

definition sample_store :: heap where
  "sample_store =
     [\<lparr>kind = Instance, props = [(''_options'', Ref 1)]\<rparr>,
      \<lparr>kind = PlainObject, props = [(''url'', JStr ''https://gateway''), (''headers'', Ref 2)]\<rparr>,
      \<lparr>kind = PlainObject, props = [(''X-Watson-Learning-Opt-Out'', JBool True)]\<rparr>,
      \<lparr>kind = PlainObject, props = [(''text'', Ref 4)]\<rparr>,
      \<lparr>kind = Array, props = [(''0'', JStr ''hello'')]\<rparr>,
      \<lparr>kind = Function (Host 0), props = []\<rparr>,
      \<lparr>kind = PlainObject, props = [(''model_id'', JStr ''en-es'')]\<rparr>,
      \<lparr>kind = PlainObject, props = [(''base_model_id'', JStr ''en-es''), (''forced_glossary'', Ref 8)]\<rparr>,
      \<lparr>kind = Instance, props = []\<rparr>,
      \<lparr>kind = PlainObject, props = [(''text'', JStr ''hola'')]\<rparr>]"

text \<open>
  The same store with one more params object (10): the three fields \<^verbatim>\<open>listModels\<close> reads,
  and the two \<^verbatim>\<open>createModel\<close> puts in its query string.
\<close>

definition sample_store_models :: heap where
  "sample_store_models = sample_store @
     [\<lparr>kind = PlainObject, props =
         [(''source'', JStr ''en''), (''target'', JStr ''es''), (''default_models'', JBool True),
          (''base_model_id'', JStr ''en-es''), (''name'', JStr ''custom'')]\<rparr>]"

section \<open>Facts about the store\<close>

declare show_nat.simps [simp del]
declare extend_into.simps(2) [simp del]

lemma fst_alloc [simp]: "fst (alloc ob h) = Ref (length h)"
  by (simp add: alloc_def)

lemma snd_alloc [simp]: "snd (alloc ob h) = h @ [ob]"
  by (simp add: alloc_def)

lemma set_prop_length [simp]: "length (set_prop h a k v) = length h"
  by (simp add: set_prop_def)

lemma set_prop_other: "a \<noteq> t \<Longrightarrow> set_prop h t k v ! a = h ! a"
  by (simp add: set_prop_def)

lemma set_prop_kind [simp]: "kind (set_prop h t k v ! a) = kind (h ! a)"
  by (cases "t < length h") (auto simp: set_prop_def nth_list_update list_update_beyond)

lemma set_prop_props:
  "a < length h \<Longrightarrow> props (set_prop h t k v ! a) =
     (if a = t then AList.update k v (props (h ! a)) else props (h ! a))"
  by (simp add: set_prop_def)

lemma kind_of_set_prop [simp]: "kind_of (set_prop h t k v) x = kind_of h x"
  by (cases x) simp_all

lemma isPlainObject_set_prop [simp]: "isPlainObject (set_prop h t k v) x = isPlainObject h x"
  by (simp add: isPlainObject_def)

lemma isArray_set_prop [simp]: "isArray (set_prop h t k v) x = isArray h x"
  by (simp add: isArray_def)

lemma cloneable_set_prop [simp]: "cloneable (set_prop h t k v) x = cloneable h x"
  by (simp add: cloneable_def)

lemma cloneable_Undefined [simp]: "\<not> cloneable h Undefined"
  by (simp add: cloneable_def isPlainObject_def isArray_def)

lemma cloneable_lt: "cloneable h (Ref b) \<Longrightarrow> b < length h"
  by (simp add: cloneable_def isPlainObject_def isArray_def split: if_splits)

lemma cloneable_Ref: "cloneable h v \<Longrightarrow> \<exists>b. v = Ref b"
  by (cases v) (simp_all add: cloneable_def isPlainObject_def isArray_def)

lemma props_of_set_prop_other: "s \<noteq> Ref t \<Longrightarrow> props_of (set_prop h t k v) s = props_of h s"
  by (cases s) (auto simp: set_prop_def)

lemma get_prop_set_prop_other: "s \<noteq> Ref t \<Longrightarrow> get_prop (set_prop h t k v) s k' = get_prop h s k'"
  by (simp add: get_prop_def props_of_set_prop_other)

lemma get_prop_mem:
  "get_prop h (Ref t) k = Ref c \<Longrightarrow> t < length h \<and> (k, Ref c) \<in> set (props (h ! t))"
  by (auto simp: get_prop_def split: option.splits if_splits dest: map_of_SomeD)

lemma get_prop_child: "get_prop h v k \<noteq> Undefined \<Longrightarrow> (k, get_prop h v k) \<in> set (props_of h v)"
  by (auto simp: get_prop_def split: option.splits dest: map_of_SomeD)

lemma set_update_cases:
  "(k', x) \<in> set (AList.update k v ps) \<Longrightarrow> (k', x) = (k, v) \<or> (k', x) \<in> set ps"
  by (induction ps) (auto split: if_splits)

subsection \<open>The branches of the loop of \<^verbatim>\<open>extend\<close>\<close>

lemma extend_into_skip:
  "get_prop h options name = Ref target \<or> get_prop h options name = Undefined \<Longrightarrow>
   extend_into n deep target options (name # names) h = extend_into n deep target options names h"
  by (auto simp: extend_into.simps(2) Let_def isPlainObject_def isArray_def)

lemma extend_into_assign:
  "get_prop h options name \<noteq> Ref target \<Longrightarrow> get_prop h options name \<noteq> Undefined \<Longrightarrow>
   \<not> (deep \<and> cloneable h (get_prop h options name)) \<Longrightarrow>
   extend_into n deep target options (name # names) h =
   extend_into n deep target options names (set_prop h target name (get_prop h options name))"
  by (auto simp: extend_into.simps(2) Let_def cloneable_def)

lemma extend_into_deep_0:
  "get_prop h options name \<noteq> Ref target \<Longrightarrow> deep \<Longrightarrow> cloneable h (get_prop h options name) \<Longrightarrow>
   extend_into 0 deep target options (name # names) h = None"
  by (auto simp: extend_into.simps(2) Let_def cloneable_def)

lemma clone_for_cases:
  obtains (reuse) c where "clone_for h src copy = (Ref c, h)" "src = Ref c" "cloneable h src"
      "if isArray h copy then isArray h src else isPlainObject h src"
  | (fresh) K where "clone_for h src copy = (Ref (length h), h @ [\<lparr>kind = K, props = []\<rparr>])"
      "\<not> (if isArray h copy then isArray h src else isPlainObject h src)"
proof (cases "if isArray h copy then isArray h src else isPlainObject h src")
  case True
  then have c: "cloneable h src" by (auto simp: cloneable_def split: if_splits)
  then obtain c where "src = Ref c" using cloneable_Ref by blast
  then show ?thesis using True c reuse[of c] by (auto simp: clone_for_def)
next
  case False
  then show ?thesis using fresh by (auto simp: clone_for_def alloc_def split: if_splits)
qed

lemma extend_into_deep_Suc:
  assumes "get_prop h options name \<noteq> Ref target" "deep" "cloneable h (get_prop h options name)"
    and "clone_for h (get_prop h (Ref target) name) (get_prop h options name) = (Ref c, h1)"
  shows "extend_into (Suc m) deep target options (name # names) h =
     (case extend_into m deep c (get_prop h options name)
             (keys_of h1 (get_prop h options name)) h1 of
        None \<Rightarrow> None
      | Some h2 \<Rightarrow> extend_into (Suc m) deep target options names (set_prop h2 target name (Ref c)))"
proof -
  have d: "deep = True" using assms(2) by simp
  show ?thesis
    using assms(1,3,4) unfolding d
    by (auto simp: extend_into.simps(2) Let_def cloneable_def clone_for_def)
qed

subsection \<open>What a deep copy leaves alone\<close>

lemma keeps_refl: "keeps P h h"
  by (simp add: keeps_def)

lemma keeps_trans: "keeps P h h1 \<Longrightarrow> keeps P h1 h2 \<Longrightarrow> keeps P h h2"
  by (auto simp: keeps_def)

lemma keeps_mono: "keeps P h h' \<Longrightarrow> Q \<subseteq> P \<Longrightarrow> keeps Q h h'"
  by (auto simp: keeps_def)

lemma keeps_set_prop: "t \<notin> P \<Longrightarrow> keeps P h (set_prop h t k v)"
  by (metis keeps_def set_prop_length set_prop_other order_refl)

lemma keeps_append: "\<forall>a\<in>P. a < length h \<Longrightarrow> keeps P h (h @ obs)"
  by (auto simp: keeps_def nth_append)

lemma keeps_bound: "keeps P h h' \<Longrightarrow> \<forall>a\<in>P. a < length h \<Longrightarrow> \<forall>a\<in>P. a < length h'"
  by (auto simp: keeps_def)

lemma owned_set_prop:
  assumes "owned P h" and "\<And>b. v = Ref b \<Longrightarrow> b \<in> P \<Longrightarrow> \<not> cloneable h (Ref b)"
  shows "owned P (set_prop h t k v)"
  unfolding owned_def
proof (intro allI impI)
  fix a k' b
  assume a: "a < length (set_prop h t k v)" "a \<notin> P"
    and m: "(k', Ref b) \<in> set (props (set_prop h t k v ! a))" and b: "b \<in> P"
  from a have al: "a < length h" by simp
  have "(k', Ref b) = (k, v) \<or> (k', Ref b) \<in> set (props (h ! a))"
    using m al by (auto simp: set_prop_props dest: set_update_cases split: if_splits)
  then show "\<not> cloneable (set_prop h t k v) (Ref b)"
  proof
    assume "(k', Ref b) = (k, v)"
    then show ?thesis using assms(2) b by auto
  next
    assume "(k', Ref b) \<in> set (props (h ! a))"
    then show ?thesis using assms(1) al a(2) b by (auto simp: owned_def)
  qed
qed

lemma owned_append:
  assumes "owned P h" and "\<forall>a\<in>P. a < length h"
  shows "owned P (h @ [\<lparr>kind = K, props = []\<rparr>])"
  unfolding owned_def
proof (intro allI impI)
  fix a k' b
  assume a: "a < length (h @ [\<lparr>kind = K, props = []\<rparr>])" "a \<notin> P"
    and m: "(k', Ref b) \<in> set (props ((h @ [\<lparr>kind = K, props = []\<rparr>]) ! a))" and b: "b \<in> P"
  have al: "a < length h" using a m by (cases "a = length h") (auto simp: nth_append)
  have bl: "b < length h" using assms(2) b by blast
  have "(k', Ref b) \<in> set (props (h ! a))" using m al by (simp add: nth_append)
  then have "\<not> cloneable h (Ref b)" using assms(1) al a(2) b by (auto simp: owned_def)
  then show "\<not> cloneable (h @ [\<lparr>kind = K, props = []\<rparr>]) (Ref b)"
    using bl by (simp add: cloneable_def isPlainObject_def isArray_def nth_append)
qed

text \<open>The target of a nested call is outside \<open>P\<close>, and making it keeps the invariant.\<close>

lemma clone_for_owned:
  assumes "owned P h" "\<forall>a\<in>P. a < length h" "t \<notin> P" "src = get_prop h (Ref t) name"
  obtains c h1 where "clone_for h src copy = (Ref c, h1)" "c \<notin> P" "c < length h1"
    "keeps P h h1" "owned P h1"
proof (rule clone_for_cases[of h src copy])
  fix c
  assume reuse: "clone_for h src copy = (Ref c, h)" "src = Ref c" "cloneable h src"
    "if isArray h copy then isArray h src else isPlainObject h src"
  have g: "get_prop h (Ref t) name = Ref c" using reuse(2) assms(4) by simp
  have tl: "t < length h" and mem: "(name, Ref c) \<in> set (props (h ! t))"
    using get_prop_mem[OF g] by auto
  have "c \<notin> P"
  proof
    assume "c \<in> P"
    then have "\<not> cloneable h (Ref c)" using assms(1,3) tl mem unfolding owned_def by blast
    then show False using reuse(2,3) by simp
  qed
  then show ?thesis
    using that[of c h] reuse cloneable_lt[of h c] assms(1) by (auto simp: keeps_refl)
next
  fix K
  assume fresh: "clone_for h src copy = (Ref (length h), h @ [\<lparr>kind = K, props = []\<rparr>])"
    "\<not> (if isArray h copy then isArray h src else isPlainObject h src)"
  show ?thesis
    using that[of "length h" "h @ [\<lparr>kind = K, props = []\<rparr>]"] fresh assms(1,2)
    by (auto simp: keeps_append owned_append)
qed

lemma extend_into_frame:
  "extend_into n deep t s names h = Some h' \<Longrightarrow> deep \<Longrightarrow> t \<notin> P \<Longrightarrow> t < length h \<Longrightarrow>
   \<forall>a\<in>P. a < length h \<Longrightarrow> owned P h \<Longrightarrow> keeps P h h' \<and> owned P h'"
proof (induction n deep t s names h arbitrary: h' rule: extend_into.induct)
  case (1 n deep target options h)
  then show ?case by (simp add: keeps_refl)
next
  case (2 n deep target options name names h)
  let ?src = "get_prop h (Ref target) name"
  let ?copy = "get_prop h options name"
  note run = 2(6) and deep = 2(7) and tP = 2(8) and tl = 2(9) and Pb = 2(10) and ow = 2(11)
  show ?case
  proof (cases "?copy = Ref target")
    case True
    then show ?thesis using 2(1)[OF refl refl True] 2(6-) by (simp add: extend_into_skip)
  next
    case nt: False
    show ?thesis
    proof (cases "cloneable h ?copy")
      case False
      then have nd: "\<not> (deep \<and> (isPlainObject h ?copy \<or> isArray h ?copy))"
        by (simp add: cloneable_def)
      show ?thesis
      proof (cases "?copy = Undefined")
        case True
        then show ?thesis using 2(5)[OF refl refl nt nd] 2(6-) by (simp add: extend_into_skip)
      next
        case nu: False
        let ?h = "set_prop h target name ?copy"
        have r: "extend_into n deep target options names ?h = Some h'"
          using run nt nu False by (simp add: extend_into_assign)
        have o: "owned P ?h" using ow False by (intro owned_set_prop) auto
        have "keeps P ?h h' \<and> owned P h'"
          using 2(4)[OF refl refl nt nd nu r deep tP] tl Pb o by simp
        then show ?thesis using keeps_trans[OF keeps_set_prop[OF tP]] by blast
      qed
    next
      case cl: True
      then have d: "deep \<and> (isPlainObject h ?copy \<or> isArray h ?copy)"
        using deep by (simp add: cloneable_def)
      obtain m where n: "n = Suc m" using run nt deep cl by (cases n) (auto simp: extend_into_deep_0)
      obtain c h1 where c: "clone_for h ?src ?copy = (Ref c, h1)" "c \<notin> P" "c < length h1"
          "keeps P h h1" "owned P h1"
        using clone_for_owned[OF ow Pb tP refl] by blast
      have xb: "(Ref c, h1) = (if isArray h ?copy
          then if isArray h ?src then (?src, h)
               else alloc \<lparr>kind = Array, props = []\<rparr> h
          else if isPlainObject h ?src then (?src, h)
               else alloc \<lparr>kind = PlainObject, props = []\<rparr> h)"
        using c(1) by (simp add: clone_for_def)
      obtain h2 where h2: "extend_into m deep c ?copy (keys_of h1 ?copy) h1 = Some h2"
        and r: "extend_into n deep target options names (set_prop h2 target name (Ref c)) = Some h'"
        using run n by (auto simp: extend_into_deep_Suc[OF nt deep cl c(1)] split: option.splits)
      have P1: "\<forall>a\<in>P. a < length h1" using keeps_bound[OF c(4) Pb] .
      have i1: "keeps P h1 h2 \<and> owned P h2"
        using 2(2)[OF refl refl nt d n refl xb refl h2 deep c(2) c(3) P1 c(5)] .
      let ?h = "set_prop h2 target name (Ref c)"
      have P2: "\<forall>a\<in>P. a < length ?h" using P1 i1 by (auto simp: keeps_def)
      have t2: "target < length ?h" using tl c(4) i1 by (auto simp: keeps_def)
      have o2: "owned P ?h" using i1 c(2) by (intro owned_set_prop) auto
      have "keeps P ?h h' \<and> owned P h'"
        using 2(3)[OF refl refl nt d n refl xb refl h2 r deep tP t2 P2 o2] .
      then show ?thesis
        using c(4) i1 keeps_set_prop[OF tP, of h2 name "Ref c"] by (blast intro: keeps_trans)
    qed
  qed
qed

lemma props_of_nth: "a < length h \<Longrightarrow> props_of h (Ref a) = props (h ! a)"
  by simp

lemma get_prop_nth: "a < length h \<Longrightarrow> get_prop h (Ref a) k = lookup (props (h ! a)) k"
  by (simp add: get_prop_def lookup_def)

lemma isPlainObject_nth: "a < length h \<Longrightarrow> isPlainObject h (Ref a) = (kind (h ! a) = PlainObject)"
  by (simp add: isPlainObject_def)

subsection \<open>A copy without nested calls\<close>

lemma copy_props_cong:
  "(\<And>k. get_prop h' s k = get_prop h s k) \<Longrightarrow> copy_props h' s t ks acc = copy_props h s t ks acc"
  by (induction ks arbitrary: acc) (simp_all add: Let_def)

lemma extend_into_flat:
  assumes "t < length h" "s \<noteq> Ref t"
    and "deep \<Longrightarrow> \<forall>k\<in>set names. \<not> cloneable h (get_prop h s k)"
  shows "extend_into n deep t s names h =
         Some (h[t := (h ! t)\<lparr>props := copy_props h s t names (props (h ! t))\<rparr>])"
  using assms
proof (induction names arbitrary: h)
  case Nil
  then show ?case by simp
next
  case (Cons k ks)
  let ?v = "get_prop h s k"
  have nc: "\<not> (deep \<and> cloneable h ?v)"
    using Cons.prems(3) by auto
  show ?case
  proof (cases "?v = Ref t \<or> ?v = Undefined")
    case True
    have "extend_into n deep t s (k # ks) h = extend_into n deep t s ks h"
      using True by (rule extend_into_skip)
    then show ?thesis using Cons.IH[of h] Cons.prems True by (auto simp: Let_def)
  next
    case False
    let ?h = "set_prop h t k ?v"
    have e: "extend_into n deep t s (k # ks) h = extend_into n deep t s ks ?h"
      using False nc by (intro extend_into_assign) auto
    have g: "\<And>k'. get_prop ?h s k' = get_prop h s k'"
      using Cons.prems(2) by (simp add: get_prop_set_prop_other)
    have c: "deep \<Longrightarrow> \<forall>k\<in>set ks. \<not> cloneable ?h (get_prop ?h s k)"
      using Cons.prems(3) g by simp
    have cp: "copy_props ?h s t ks = copy_props h s t ks"
      by (rule ext, rule copy_props_cong, rule g)
    have "extend_into n deep t s ks ?h =
          Some (?h[t := (?h ! t)\<lparr>props := copy_props h s t ks (props (?h ! t))\<rparr>])"
      using Cons.IH[of ?h] Cons.prems(1,2) c by (simp add: cp)
    moreover have "?h[t := (?h ! t)\<lparr>props := copy_props h s t ks (props (?h ! t))\<rparr>] =
          h[t := (h ! t)\<lparr>props := copy_props h s t ks (AList.update k ?v (props (h ! t)))\<rparr>]"
      using Cons.prems(1) by (simp add: set_prop_def)
    ultimately show ?thesis using e False by (simp add: Let_def)
  qed
qed

lemma map_of_copy_props:
  "map_of (copy_props h s t ks acc) k =
     (if k \<in> set ks \<and> get_prop h s k \<noteq> Ref t \<and> get_prop h s k \<noteq> Undefined
      then Some (get_prop h s k) else map_of acc k)"
  by (induction ks arbitrary: acc) (auto simp: Let_def AList.update_conv')

lemma keys_copy_props:
  "fst ` set (copy_props h s t ks acc) =
     fst ` set acc \<union> {k \<in> set ks. get_prop h s k \<noteq> Ref t \<and> get_prop h s k \<noteq> Undefined}"
  by (induction ks arbitrary: acc) (auto simp: Let_def AList.dom_update)

subsection \<open>A deep copy of a tree that nests within the bound completes\<close>

lemma props_of_keeps:
  "keeps P h h' \<Longrightarrow> \<forall>a\<in>P. a < length h \<Longrightarrow> Q \<subseteq> P \<Longrightarrow> in_region Q v \<Longrightarrow>
   props_of h' v = props_of h v"
  by (cases v) (auto simp: keeps_def in_region_def)

lemma get_prop_keeps:
  "keeps P h h' \<Longrightarrow> \<forall>a\<in>P. a < length h \<Longrightarrow> Q \<subseteq> P \<Longrightarrow> in_region Q v \<Longrightarrow>
   get_prop h' v k = get_prop h v k"
  by (simp add: get_prop_def props_of_keeps)

lemma keys_of_keeps:
  "keeps P h h' \<Longrightarrow> \<forall>a\<in>P. a < length h \<Longrightarrow> Q \<subseteq> P \<Longrightarrow> in_region Q v \<Longrightarrow>
   keys_of h' v = keys_of h v"
  by (simp add: keys_of_def props_of_keeps)

lemma cloneable_keeps_region:
  "keeps P h h' \<Longrightarrow> \<forall>a\<in>P. a < length h \<Longrightarrow> Q \<subseteq> P \<Longrightarrow> in_region Q v \<Longrightarrow>
   cloneable h' v = cloneable h v"
  by (cases v) (auto simp: keeps_def in_region_def cloneable_def isPlainObject_def isArray_def)

lemma region_child:
  "region Q h \<Longrightarrow> in_region Q v \<Longrightarrow> (k, c) \<in> set (props_of h v) \<Longrightarrow> in_region Q c"
  by (cases v)
    (auto simp: region_def in_region_def string_props_def split: if_splits dest!: set_zip_rightD)

lemma region_keeps: "keeps P h h' \<Longrightarrow> Q \<subseteq> P \<Longrightarrow> region Q h \<Longrightarrow> region Q h'"
  by (auto simp: keeps_def region_def subset_iff)

lemma nests_within_keeps:
  assumes "keeps P h h'" "\<forall>a\<in>P. a < length h" "Q \<subseteq> P" "region Q h"
  shows "in_region Q v \<Longrightarrow> nests_within n h' v = nests_within n h v"
proof (induction n arbitrary: v)
  case 0
  have p: "props_of h' v = props_of h v" using assms 0 by (simp add: props_of_keeps)
  have "\<And>k c. (k, c) \<in> set (props_of h v) \<Longrightarrow> cloneable h' c = cloneable h c"
    using assms 0 by (meson cloneable_keeps_region region_child)
  then show ?case by (auto simp: p)
next
  case (Suc n)
  have p: "props_of h' v = props_of h v" using assms Suc.prems by (simp add: props_of_keeps)
  have c: "\<And>k c. (k, c) \<in> set (props_of h v) \<Longrightarrow> cloneable h' c = cloneable h c"
    using assms Suc.prems by (meson cloneable_keeps_region region_child)
  have r: "\<And>k c. (k, c) \<in> set (props_of h v) \<Longrightarrow> nests_within n h' c = nests_within n h c"
    using assms Suc.prems Suc.IH by (meson region_child)
  show ?case using c r by (auto simp: p)
qed

lemma extend_into_total:
  "deep \<Longrightarrow> \<forall>a\<in>P. a < length h \<Longrightarrow> t \<notin> P \<Longrightarrow> t < length h \<Longrightarrow> owned P h \<Longrightarrow>
   Q \<subseteq> P \<Longrightarrow> region Q h \<Longrightarrow> in_region Q s \<Longrightarrow> nests_within n h s \<Longrightarrow>
   \<exists>h'. extend_into n deep t s names h = Some h'"
proof (induction n deep t s names h rule: extend_into.induct)
  case (1 n deep target options h)
  then show ?case by simp
next
  case (2 n deep target options name names h)
  let ?src = "get_prop h (Ref target) name"
  let ?copy = "get_prop h options name"
  note deep = 2(6) and Pb = 2(7) and tP = 2(8) and tl = 2(9) and ow = 2(10)
    and QP = 2(11) and rg = 2(12) and ir = 2(13) and nw = 2(14)
  show ?case
  proof (cases "?copy = Ref target")
    case True
    then show ?thesis using 2(1)[OF refl refl True] 2(6-) by (simp add: extend_into_skip)
  next
    case nt: False
    show ?thesis
    proof (cases "cloneable h ?copy")
      case False
      then have nd: "\<not> (deep \<and> (isPlainObject h ?copy \<or> isArray h ?copy))"
        by (simp add: cloneable_def)
      show ?thesis
      proof (cases "?copy = Undefined")
        case True
        then show ?thesis using 2(5)[OF refl refl nt nd] 2(6-) by (simp add: extend_into_skip)
      next
        case nu: False
        let ?h = "set_prop h target name ?copy"
        have k: "keeps P h ?h" by (rule keeps_set_prop[OF tP])
        have o: "owned P ?h" using ow False by (intro owned_set_prop) auto
        have "\<exists>h'. extend_into n deep target options names ?h = Some h'"
          using 2(4)[OF refl refl nt nd nu deep _ tP _ o QP region_keeps[OF k QP rg] ir]
            Pb tl nests_within_keeps[OF k Pb QP rg ir] nw by simp
        then show ?thesis using nt nu False by (simp add: extend_into_assign)
      qed
    next
      case cl: True
      then have d: "deep \<and> (isPlainObject h ?copy \<or> isArray h ?copy)"
        using deep by (simp add: cloneable_def)
      have ch: "(name, ?copy) \<in> set (props_of h options)"
        using cl by (intro get_prop_child) auto
      have irc: "in_region Q ?copy" using region_child[OF rg ir ch] .
      obtain m where n: "n = Suc m" using nw ch cl by (cases n) auto
      have nwc: "nests_within m h ?copy" using nw ch cl n by auto
      obtain c h1 where c: "clone_for h ?src ?copy = (Ref c, h1)" "c \<notin> P" "c < length h1"
          "keeps P h h1" "owned P h1"
        using clone_for_owned[OF ow Pb tP refl] by blast
      have xb: "(Ref c, h1) = (if isArray h ?copy
          then if isArray h ?src then (?src, h)
               else alloc \<lparr>kind = Array, props = []\<rparr> h
          else if isPlainObject h ?src then (?src, h)
               else alloc \<lparr>kind = PlainObject, props = []\<rparr> h)"
        using c(1) by (simp add: clone_for_def)
      have P1: "\<forall>a\<in>P. a < length h1" using keeps_bound[OF c(4) Pb] .
      have "\<exists>h2. extend_into m deep c ?copy (keys_of h1 ?copy) h1 = Some h2"
        using 2(2)[OF refl refl nt d n refl xb refl deep P1 c(2) c(3) c(5) QP
            region_keeps[OF c(4) QP rg] irc] nests_within_keeps[OF c(4) Pb QP rg irc] nwc
        by simp
      then obtain h2 where h2: "extend_into m deep c ?copy (keys_of h1 ?copy) h1 = Some h2" ..
      have i1: "keeps P h1 h2 \<and> owned P h2"
        using extend_into_frame[OF h2 deep c(2) c(3) P1 c(5)] .
      let ?h = "set_prop h2 target name (Ref c)"
      have k: "keeps P h ?h"
        using c(4) i1 keeps_set_prop[OF tP, of h2 name "Ref c"] by (blast intro: keeps_trans)
      have P2: "\<forall>a\<in>P. a < length ?h" using Pb k by (auto simp: keeps_def)
      have t2: "target < length ?h" using tl k by (auto simp: keeps_def)
      have o2: "owned P ?h" using i1 c(2) by (intro owned_set_prop) auto
      have "\<exists>h'. extend_into n deep target options names ?h = Some h'"
        using 2(3)[OF refl refl nt d n refl xb refl h2 deep P2 tP t2 o2 QP
            region_keeps[OF k QP rg] ir] nests_within_keeps[OF k Pb QP rg ir] nw
        by simp
      then show ?thesis using h2 n by (simp add: extend_into_deep_Suc[OF nt deep cl c(1)])
    qed
  qed
qed

subsection \<open>Objects that a copy cannot reach do not influence it\<close>

lemma agree_refl: "agree X h h"
  by (simp add: agree_def)

lemma agree_props_of: "agree X h g \<Longrightarrow> in_region (- X) v \<Longrightarrow> props_of g v = props_of h v"
  by (cases v) (auto simp: agree_def in_region_def)

lemma agree_get_prop: "agree X h g \<Longrightarrow> in_region (- X) v \<Longrightarrow> get_prop g v k = get_prop h v k"
  by (simp add: get_prop_def agree_props_of)

lemma agree_keys_of: "agree X h g \<Longrightarrow> in_region (- X) v \<Longrightarrow> keys_of g v = keys_of h v"
  by (simp add: keys_of_def agree_props_of)

lemma agree_kind_of: "agree X h g \<Longrightarrow> in_region (- X) v \<Longrightarrow> kind_of g v = kind_of h v"
  by (cases v) (auto simp: agree_def in_region_def)

lemma agree_set_prop: "agree X h g \<Longrightarrow> t \<notin> X \<Longrightarrow> agree X (set_prop h t k v) (set_prop g t k v)"
  by (cases "t < length h") (auto simp: agree_def set_prop_def nth_list_update)

lemma agree_append: "agree X h g \<Longrightarrow> agree X (h @ [ob]) (g @ [ob])"
  by (auto simp: agree_def nth_append)

lemma unreached_child:
  "unreached X h \<Longrightarrow> in_region (- X) v \<Longrightarrow> (k, c) \<in> set (props_of h v) \<Longrightarrow> in_region (- X) c"
  by (cases v)
    (auto simp: unreached_def in_region_def string_props_def split: if_splits dest!: set_zip_rightD)

lemma unreached_get_prop:
  "unreached X h \<Longrightarrow> in_region (- X) v \<Longrightarrow> in_region (- X) (get_prop h v k)"
  using unreached_child[of X h v k "get_prop h v k"] get_prop_child[of h v k]
  by (cases "get_prop h v k = Undefined") (auto simp: in_region_def)

lemma unreached_set_prop:
  assumes "unreached X h" "in_region (- X) v"
  shows "unreached X (set_prop h t k v)"
  unfolding unreached_def
proof (intro allI impI)
  fix a k' b
  assume a: "a < length (set_prop h t k v)" "a \<notin> X"
    and m: "(k', Ref b) \<in> set (props (set_prop h t k v ! a))"
  from a have al: "a < length h" by simp
  have "(k', Ref b) = (k, v) \<or> (k', Ref b) \<in> set (props (h ! a))"
    using m al by (auto simp: set_prop_props dest: set_update_cases split: if_splits)
  then show "b \<notin> X"
    using assms al a(2) by (auto simp: unreached_def in_region_def)
qed

lemma unreached_append:
  "unreached X h \<Longrightarrow> unreached X (h @ [\<lparr>kind = K, props = []\<rparr>])"
  unfolding unreached_def
  by (auto simp: nth_append less_Suc_eq)

lemma clone_for_agree:
  assumes "agree X h g" "unreached X h" "\<forall>a\<in>X. a < length h" "in_region (- X) src"
    "kind_of g copy = kind_of h copy"
  obtains c h1 g1 where "clone_for h src copy = (Ref c, h1)" "clone_for g src copy = (Ref c, g1)"
    "c \<notin> X" "agree X h1 g1" "unreached X h1" "length h \<le> length h1"
proof -
  have ks: "kind_of g src = kind_of h src" and kc: "kind_of g copy = kind_of h copy"
    using assms by (simp_all add: agree_kind_of)
  have cf: "clone_for g src copy =
      (if isArray h copy
       then (if isArray h src then (src, g) else alloc \<lparr>kind = Array, props = []\<rparr> g)
       else (if isPlainObject h src then (src, g) else alloc \<lparr>kind = PlainObject, props = []\<rparr> g))"
    by (simp add: clone_for_def isArray_def isPlainObject_def ks kc)
  have l: "length g = length h" using assms(1) by (simp add: agree_def)
  show ?thesis
  proof (rule clone_for_cases[of h src copy])
    fix c
    assume r: "clone_for h src copy = (Ref c, h)" "src = Ref c" "cloneable h src"
      "if isArray h copy then isArray h src else isPlainObject h src"
    have "clone_for g src copy = (src, g)"
      using r(4) by (simp add: cf split: if_splits)
    then have "clone_for g src copy = (Ref c, g)" using r(2) by simp
    moreover have "c \<notin> X" using assms(4) r(2) by (simp add: in_region_def)
    ultimately show ?thesis using that[of c h g] r(1) assms(1,2) by simp
  next
    fix K
    assume f: "clone_for h src copy = (Ref (length h), h @ [\<lparr>kind = K, props = []\<rparr>])"
      "\<not> (if isArray h copy then isArray h src else isPlainObject h src)"
    have K: "K = (if isArray h copy then Array else PlainObject)"
      using f by (auto simp: clone_for_def alloc_def split: if_splits)
    have "clone_for g src copy = (Ref (length h), g @ [\<lparr>kind = K, props = []\<rparr>])"
      using f(2) l K by (simp add: cf alloc_def split: if_splits)
    moreover have "length h \<notin> X" using assms(3) by auto
    ultimately show ?thesis
      using that[of "length h" "h @ [\<lparr>kind = K, props = []\<rparr>]" "g @ [\<lparr>kind = K, props = []\<rparr>]"]
        f assms(1,2) by (simp add: agree_append unreached_append)
  qed
qed

lemma extend_into_agree:
  "agree X h g \<Longrightarrow> unreached X h \<Longrightarrow> \<forall>a\<in>X. a < length h \<Longrightarrow> t \<notin> X \<Longrightarrow> in_region (- X) s \<Longrightarrow>
   (case extend_into n deep t s names h of
      None \<Rightarrow> extend_into n deep t s names g = None
    | Some h' \<Rightarrow> \<exists>g'. extend_into n deep t s names g = Some g' \<and>
        agree X h' g' \<and> unreached X h' \<and> length h \<le> length h')"
proof (induction n deep t s names h arbitrary: g rule: extend_into.induct)
  case (1 n deep target options h)
  then show ?case by simp
next
  case (2 n deep target options name names h)
  let ?src = "get_prop h (Ref target) name"
  let ?copy = "get_prop h options name"
  note ag = 2(6) and un = 2(7) and Xb = 2(8) and tX = 2(9) and ir = 2(10)
  have it: "in_region (- X) (Ref target)" using tX by (simp add: in_region_def)
  have gs: "get_prop g (Ref target) name = ?src" using ag it by (rule agree_get_prop)
  have gc: "get_prop g options name = ?copy" using ag ir by (rule agree_get_prop)
  have irs: "in_region (- X) ?src" using un it by (rule unreached_get_prop)
  have irc: "in_region (- X) ?copy" using un ir by (rule unreached_get_prop)
  have clg: "cloneable g ?copy = cloneable h ?copy"
    using agree_kind_of[OF ag irc] by (simp add: cloneable_def isPlainObject_def isArray_def)
  show ?case
  proof (cases "?copy = Ref target \<or> ?copy = Undefined")
    case True
    have e: "extend_into n deep target options (name # names) h =
             extend_into n deep target options names h"
        "extend_into n deep target options (name # names) g =
             extend_into n deep target options names g"
      using True gc by (simp_all add: extend_into_skip)
    show ?thesis
    proof (cases "?copy = Ref target")
      case t: True
      show ?thesis unfolding e using 2(1)[OF refl refl t ag un Xb tX ir] .
    next
      case nt: False
      then have u: "\<not> ?copy \<noteq> Undefined" using True by simp
      have nd: "\<not> (deep \<and> (isPlainObject h ?copy \<or> isArray h ?copy))"
        using u by (simp add: isPlainObject_def isArray_def)
      show ?thesis unfolding e using 2(5)[OF refl refl nt nd u ag un Xb tX ir] .
    qed
  next
    case False
    then have nt: "?copy \<noteq> Ref target" and nu: "?copy \<noteq> Undefined" by auto
    show ?thesis
    proof (cases "deep \<and> cloneable h ?copy")
      case nc: False
      then have nd: "\<not> (deep \<and> (isPlainObject h ?copy \<or> isArray h ?copy))"
        by (simp add: cloneable_def)
      let ?h = "set_prop h target name ?copy"
      let ?g = "set_prop g target name ?copy"
      have e: "extend_into n deep target options (name # names) h =
               extend_into n deep target options names ?h"
          "extend_into n deep target options (name # names) g =
               extend_into n deep target options names ?g"
        using nt nu nc gc clg by (simp_all add: extend_into_assign)
      have "case extend_into n deep target options names ?h of
              None \<Rightarrow> extend_into n deep target options names ?g = None
            | Some h' \<Rightarrow> \<exists>g'. extend_into n deep target options names ?g = Some g' \<and>
                agree X h' g' \<and> unreached X h' \<and> length ?h \<le> length h'"
        using 2(4)[OF refl refl nt nd nu agree_set_prop[OF ag tX] unreached_set_prop[OF un irc] _ tX ir]
          Xb by simp
      then show ?thesis unfolding e by (simp split: option.splits)
    next
      case True
      then have deep: deep and cl: "cloneable h ?copy" by auto
      have d: "deep \<and> (isPlainObject h ?copy \<or> isArray h ?copy)"
        using True by (simp add: cloneable_def)
      show ?thesis
      proof (cases n)
        case 0
        then show ?thesis using nt deep cl gc clg by (simp add: extend_into_deep_0)
      next
        case (Suc m)
        obtain c h1 g1 where c: "clone_for h ?src ?copy = (Ref c, h1)"
            "clone_for g ?src ?copy = (Ref c, g1)"
            "c \<notin> X" "agree X h1 g1" "unreached X h1" "length h \<le> length h1"
          using clone_for_agree[OF ag un Xb irs agree_kind_of[OF ag irc]] by blast
        have xb: "(Ref c, h1) = (if isArray h ?copy
            then if isArray h ?src then (?src, h)
                 else alloc \<lparr>kind = Array, props = []\<rparr> h
            else if isPlainObject h ?src then (?src, h)
                 else alloc \<lparr>kind = PlainObject, props = []\<rparr> h)"
          using c(1) by (simp add: clone_for_def)
        have X1: "\<forall>a\<in>X. a < length h1" using Xb c(6) by auto
        have kg: "keys_of g1 ?copy = keys_of h1 ?copy" using c(4) irc by (rule agree_keys_of)
        have eh: "extend_into n deep target options (name # names) h =
            (case extend_into m deep c ?copy (keys_of h1 ?copy) h1 of
               None \<Rightarrow> None
             | Some h2 \<Rightarrow> extend_into n deep target options names (set_prop h2 target name (Ref c)))"
          unfolding Suc by (rule extend_into_deep_Suc[OF nt deep cl c(1)])
        have eg: "extend_into n deep target options (name # names) g =
            (case extend_into m deep c ?copy (keys_of h1 ?copy) g1 of
               None \<Rightarrow> None
             | Some g2 \<Rightarrow> extend_into n deep target options names (set_prop g2 target name (Ref c)))"
          unfolding Suc using extend_into_deep_Suc[of g options name target deep c g1 m names]
            nt deep cl c(2) gc gs clg kg by simp
        have inner: "case extend_into m deep c ?copy (keys_of h1 ?copy) h1 of
              None \<Rightarrow> extend_into m deep c ?copy (keys_of h1 ?copy) g1 = None
            | Some h' \<Rightarrow> \<exists>g'. extend_into m deep c ?copy (keys_of h1 ?copy) g1 = Some g' \<and>
                agree X h' g' \<and> unreached X h' \<and> length h1 \<le> length h'"
          using 2(2)[OF refl refl nt d Suc refl xb refl c(4) c(5) X1 c(3) irc] .
        show ?thesis
        proof (cases "extend_into m deep c ?copy (keys_of h1 ?copy) h1")
          case None
          then show ?thesis using inner by (simp add: eh eg)
        next
          case (Some h2)
          then obtain g2 where g2: "extend_into m deep c ?copy (keys_of h1 ?copy) g1 = Some g2"
            "agree X h2 g2" "unreached X h2" "length h1 \<le> length h2"
            using inner by auto
          let ?h = "set_prop h2 target name (Ref c)"
          let ?g = "set_prop g2 target name (Ref c)"
          have ic: "in_region (- X) (Ref c)" using c(3) by (simp add: in_region_def)
          have X2: "\<forall>a\<in>X. a < length ?h" using X1 g2(4) by auto
          have "case extend_into n deep target options names ?h of
              None \<Rightarrow> extend_into n deep target options names ?g = None
            | Some h' \<Rightarrow> \<exists>g'. extend_into n deep target options names ?g = Some g' \<and>
                agree X h' g' \<and> unreached X h' \<and> length ?h \<le> length h'"
            using 2(3)[OF refl refl nt d Suc refl xb refl Some agree_set_prop[OF g2(2) tX]
                unreached_set_prop[OF g2(3) ic] X2 tX ir] .
          then show ?thesis using c(6) g2(4) by (auto simp: eh eg Some g2(1) split: option.splits)
        qed
      qed
    qed
  qed
qed

section \<open>The two copies every method makes\<close>

declare extend_sources.simps(2) [simp del]

lemma extend_sources_Cons [simp]:
  "extend_sources n deep t (v # rest) h =
     (case extend_into n deep t v (keys_of h v) h of
        None \<Rightarrow> None
      | Some h1 \<Rightarrow> extend_sources n deep t rest h1)"
  by (auto simp: keys_of_def extend_sources.simps(2))

lemma extend_Ref:
  "extend n deep (Ref a) sources h = map_option (Pair (Ref a)) (extend_sources n deep a sources h)"
  by (simp add: extend_def)

lemma props_of_append_empty:
  "props_of (h @ [\<lparr>kind = K, props = []\<rparr>]) v = props_of h v"
  by (cases v) (auto simp: nth_append less_Suc_eq)

lemma get_prop_append_empty:
  "get_prop (h @ [\<lparr>kind = K, props = []\<rparr>]) v k = get_prop h v k"
  by (simp add: get_prop_def props_of_append_empty)

lemma keys_of_append_empty:
  "keys_of (h @ [\<lparr>kind = K, props = []\<rparr>]) v = keys_of h v"
  by (simp add: keys_of_def props_of_append_empty)

text \<open>\<^verbatim>\<open>extend({}, params)\<close> always completes, and only makes the new object.\<close>

lemma shallow_copy:
  "extend stack False (Ref (length h)) [params] (h @ [\<lparr>kind = PlainObject, props = []\<rparr>]) =
   Some (Ref (length h), h @ [\<lparr>kind = PlainObject, props = copied h params\<rparr>])"
proof -
  let ?E = "\<lparr>kind = PlainObject, props = []\<rparr>"
  let ?h = "h @ [?E]"
  let ?t = "length h"
  show ?thesis
  proof (cases "params = Ref ?t")
    case True
    have "keys_of ?h params = []" using True by (simp add: keys_of_def)
    moreover have "copied h params = []" using True by (simp add: copied_def keys_of_def)
    ultimately show ?thesis by (simp add: extend_Ref extend_sources_Cons)
  next
    case False
    have g: "\<And>k. get_prop ?h params k = get_prop h params k"
      by (rule get_prop_append_empty)
    have "extend_into stack False ?t params (keys_of ?h params) ?h =
          Some (?h[?t := (?h ! ?t)\<lparr>props := copy_props ?h params ?t (keys_of ?h params) (props (?h ! ?t))\<rparr>])"
      using False by (intro extend_into_flat) auto
    also have "copy_props ?h params ?t = copy_props h params ?t"
      by (rule ext, rule ext, rule copy_props_cong, rule g)
    finally show ?thesis
      by (simp add: extend_Ref extend_sources_Cons keys_of_append_empty copied_def)
  qed
qed

lemma map_of_copied:
  "map_of (copied h params) k =
     (if get_prop h params k = Ref (length h) \<or> get_prop h params k = Undefined then None
      else Some (get_prop h params k))"
proof -
  have "get_prop h params k \<noteq> Undefined \<Longrightarrow> k \<in> set (keys_of h params)"
    using get_prop_child[of h params k] by (force simp: keys_of_def)
  then show ?thesis by (auto simp: copied_def map_of_copy_props)
qed

lemma keys_copied:
  "k \<in> fst ` set (copied h params) \<longleftrightarrow>
     get_prop h params k \<noteq> Ref (length h) \<and> get_prop h params k \<noteq> Undefined"
proof -
  have "k \<in> fst ` set (copied h params) \<longleftrightarrow> map_of (copied h params) k \<noteq> None"
    by (simp add: map_of_eq_None_iff)
  then show ?thesis by (simp add: map_of_copied)
qed

text \<open>In a closed store no property refers to the object that is allocated next.\<close>

lemma heap_closed_get_prop:
  "heap_closed h \<Longrightarrow> in_heap h (get_prop h v k)"
proof -
  assume c: "heap_closed h"
  show ?thesis
  proof (cases "get_prop h v k = Undefined")
    case True
    then show ?thesis by (simp add: in_heap_def)
  next
    case False
    then have m: "(k, get_prop h v k) \<in> set (props_of h v)" by (rule get_prop_child)
    show ?thesis
    proof (cases v)
      case (Ref a)
      then have "a < length h" and "(k, get_prop h v k) \<in> set (props (h ! a))"
        using m by (auto split: if_splits)
      then show ?thesis using c unfolding heap_closed_def in_heap_def
        by (force split: jsval.splits)
    next
      case (JStr s)
      then show ?thesis using m
        by (auto simp: string_props_def in_heap_def dest!: set_zip_rightD)
    qed (use m in auto)
  qed
qed

lemma get_prop_copied:
  assumes "heap_closed h"
  shows "get_prop (h @ \<lparr>kind = PlainObject, props = copied h params\<rparr> # hs) (Ref (length h)) k =
         get_prop h params k"
proof -
  have "get_prop h params k \<noteq> Ref (length h)"
    using heap_closed_get_prop[OF assms, of params k] by (auto simp: in_heap_def)
  then show ?thesis by (simp add: get_prop_def map_of_copied)
qed

text \<open>
  The deep copy of the options, then the merge of the per-method headers. Everything
  that existed before the call of \<^verbatim>\<open>extend\<close>, except its target, is left as it was.
\<close>

lemma default_options_unfold:
  "this \<noteq> Undefined \<Longrightarrow> this \<noteq> Null \<Longrightarrow>
   default_options stack this hdrs h =
     extend stack True (Ref (length h)) [get_prop h this ''_options'', Ref (Suc (Suc (length h)))]
       (h @ [\<lparr>kind = PlainObject, props = []\<rparr>, \<lparr>kind = PlainObject, props = hdrs\<rparr>,
             \<lparr>kind = PlainObject, props = [(''headers'', Ref (Suc (length h)))]\<rparr>])"
  by (simp add: default_options_def read_prop_def object_literal_def alloc_def
      get_prop_append_empty)

text \<open>On a receiver that is \<^verbatim>\<open>undefined\<close> or \<^verbatim>\<open>null\<close> the read of its options throws.\<close>

lemma default_options_throws:
  "this = Undefined \<or> this = Null \<Longrightarrow> default_options stack this hdrs h = None"
  by (auto simp: default_options_def read_prop_def object_literal_def alloc_def)

lemma default_options_receiver:
  "default_options stack this hdrs h = Some r \<Longrightarrow> this \<noteq> Undefined"
  "default_options stack this hdrs h = Some r \<Longrightarrow> this \<noteq> Null"
  using default_options_throws[of this stack hdrs h] by auto

lemma heap_closed_region: "heap_closed h \<Longrightarrow> region {..<length h} h"
  unfolding heap_closed_def region_def by (force split: jsval.splits)

lemma in_heap_region: "in_heap h v \<longleftrightarrow> in_region {..<length h} v"
  by (cases v) (auto simp: in_heap_def in_region_def)

lemma default_options_ok:
  fixes h0 h :: heap and hdrs :: "(string \<times> jsval) list"
  defines "t \<equiv> length h"
  defines "hA \<equiv> h @ [\<lparr>kind = PlainObject, props = []\<rparr>, \<lparr>kind = PlainObject, props = hdrs\<rparr>,
             \<lparr>kind = PlainObject, props = [(''headers'', Ref (Suc (length h)))]\<rparr>]"
  defines "P \<equiv> {..<length hA} - {t}"
  assumes closed: "heap_closed h0" and pre: "keeps {..<length h0} h0 h" and thi: "in_heap h0 this"
    and st: "0 < stack" and nw: "nests_within stack h0 (get_prop h0 this ''_options'')"
    and prim: "\<forall>(k, v) \<in> set hdrs. \<exists>s. v = JStr s"
    and rcv: "this \<noteq> Undefined" "this \<noteq> Null"
  obtains h1 c h2 where
    "extend_into stack True t (get_prop h0 this ''_options'')
       (keys_of hA (get_prop h0 this ''_options'')) hA = Some h1"
    "keeps P hA h1" "owned P h1"
    "clone_for h1 (get_prop h1 (Ref t) ''headers'') (Ref (Suc t)) = (Ref c, h2)"
    "c \<notin> P" "c < length h2" "keeps P h1 h2"
    "default_options stack this hdrs h =
       Some (Ref t, set_prop
         (h2[c := (h2 ! c)\<lparr>props := copy_props h2 (Ref (Suc t)) c (map fst hdrs) (props (h2 ! c))\<rparr>])
         t ''headers'' (Ref c))"
proof -
  let ?opts = "get_prop h0 this ''_options''"
  let ?Q = "{..<length h0}"
  have l0: "length h0 \<le> length h" using pre by (simp add: keeps_def)
  have QP: "?Q \<subseteq> P" using l0 by (auto simp: P_def t_def hA_def)
  have Qb: "\<forall>a\<in>?Q. a < length h0" by simp
  have rg0: "region ?Q h0" using closed by (rule heap_closed_region)
  have kA: "keeps ?Q h0 hA"
    using pre l0 by (auto simp: keeps_def hA_def nth_append)
  have go: "get_prop h this ''_options'' = ?opts"
    using get_prop_keeps[OF pre Qb subset_refl] thi by (simp add: in_heap_region)
  have Pb: "\<forall>a\<in>P. a < length hA" by (simp add: P_def)
  have tP: "t \<notin> P" by (simp add: P_def)
  have tl: "t < length hA" by (simp add: t_def hA_def)
  have owA: "owned P hA"
    unfolding owned_def P_def t_def hA_def by (auto simp: nth_append)
  have rgA: "region ?Q hA" using region_keeps[OF kA subset_refl rg0] .
  have iro: "in_region ?Q ?opts"
    using heap_closed_get_prop[OF closed, of this "''_options''"] by (simp add: in_heap_region)
  have nwA: "nests_within stack hA ?opts"
    using nests_within_keeps[OF kA Qb subset_refl rg0 iro] nw by simp
  obtain h1 where h1: "extend_into stack True t ?opts (keys_of hA ?opts) hA = Some h1"
    using extend_into_total[OF TrueI Pb tP tl owA QP rgA iro nwA] ..
  have f1: "keeps P hA h1" "owned P h1"
    using extend_into_frame[OF h1 TrueI tP tl Pb owA] by (rule conjunct1, rule conjunct2)
  have P1: "\<forall>a\<in>P. a < length h1" using keeps_bound[OF f1(1) Pb] .
  have mem: "Suc t \<in> P" "Suc (Suc t) \<in> P" by (auto simp: P_def t_def hA_def)
  have H1: "h1 ! Suc t = \<lparr>kind = PlainObject, props = hdrs\<rparr>"
    and HS1: "h1 ! Suc (Suc t) = \<lparr>kind = PlainObject, props = [(''headers'', Ref (Suc t))]\<rparr>"
    using f1(1) mem by (auto simp: keeps_def t_def hA_def nth_append)
  have l1: "Suc (Suc t) < length h1" "Suc t < length h1" "t < length h1"
    using P1 mem by auto
  obtain c h2 where c: "clone_for h1 (get_prop h1 (Ref t) ''headers'') (Ref (Suc t)) = (Ref c, h2)"
      "c \<notin> P" "c < length h2" "keeps P h1 h2" "owned P h2"
    by (rule clone_for_owned[OF f1(2) P1 tP refl])
  have H2: "h2 ! Suc t = \<lparr>kind = PlainObject, props = hdrs\<rparr>"
    using c(4) mem H1 by (auto simp: keeps_def)
  have l2: "Suc t < length h2" "t < length h2" using c(4) l1 by (auto simp: keeps_def)
  have cne: "Ref (Suc t) \<noteq> Ref c" using c(2) mem by auto
  have k2: "keys_of h2 (Ref (Suc t)) = map fst hdrs"
    using l2 H2 by (simp add: keys_of_def)
  have nc: "\<forall>k\<in>set (map fst hdrs). \<not> cloneable h2 (get_prop h2 (Ref (Suc t)) k)"
  proof
    fix k assume "k \<in> set (map fst hdrs)"
    show "\<not> cloneable h2 (get_prop h2 (Ref (Suc t)) k)"
    proof (cases "get_prop h2 (Ref (Suc t)) k = Undefined")
      case False
      then have "(k, get_prop h2 (Ref (Suc t)) k) \<in> set hdrs"
        using get_prop_child[of h2 "Ref (Suc t)" k] l2 H2 by simp
      then obtain s where "get_prop h2 (Ref (Suc t)) k = JStr s" using prim by auto
      then show ?thesis by (simp add: cloneable_def isPlainObject_def isArray_def)
    qed simp
  qed
  obtain m where m: "stack = Suc m" using st by (cases stack) auto
  let ?h3 = "h2[c := (h2 ! c)\<lparr>props := copy_props h2 (Ref (Suc t)) c (map fst hdrs) (props (h2 ! c))\<rparr>]"
  have inner: "extend_into m True c (Ref (Suc t)) (keys_of h2 (Ref (Suc t))) h2 = Some ?h3"
    unfolding k2 using c(3) cne nc by (intro extend_into_flat) auto
  have gc: "get_prop h1 (Ref (Suc (Suc t))) ''headers'' = Ref (Suc t)"
    using l1 HS1 by (simp add: get_prop_def)
  have cl: "cloneable h1 (Ref (Suc t))"
    using l1 H1 by (simp add: cloneable_def isPlainObject_def)
  have k1: "keys_of h1 (Ref (Suc (Suc t))) = [''headers'']"
    using l1 HS1 by (simp add: keys_of_def)
  have p2: "extend_into stack True t (Ref (Suc (Suc t))) (keys_of h1 (Ref (Suc (Suc t)))) h1 =
            Some (set_prop ?h3 t ''headers'' (Ref c))"
    unfolding k1 m
    using extend_into_deep_Suc[of h1 "Ref (Suc (Suc t))" "''headers''" t True c h2 m "[]"]
      gc cl c(1) inner by simp
  have "default_options stack this hdrs h = Some (Ref t, set_prop ?h3 t ''headers'' (Ref c))"
    unfolding default_options_unfold[OF rcv] go
    using h1 p2 by (simp add: extend_Ref t_def hA_def)
  then show ?thesis using that[OF h1 f1 c(1-4)] by simp
qed

section \<open>Every method is an instance of the skeleton\<close>

lemma typeof_function_append_plain [simp]:
  "typeof_function (h @ [\<lparr>kind = PlainObject, props = ps\<rparr>]) v = typeof_function h v"
  by (cases v) (auto simp: typeof_function_def nth_append less_Suc_eq)

lemma get_prop_at:
  "get_prop (h @ \<lparr>kind = K, props = ps\<rparr> # hs) (Ref (length h)) k = lookup ps k"
  by (simp add: get_prop_def lookup_def)

lemma keys_of_at:
  "keys_of (h @ \<lparr>kind = K, props = ps\<rparr> # hs) (Ref (length h)) = map fst ps"
  by (simp add: keys_of_def)

lemma bind_option_case:
  "Option.bind m f = (case m of None \<Rightarrow> None | Some x \<Rightarrow> f x)"
  by (cases m) simp_all

lemmas method_simps =
  object_literal_def alloc_def arrow_noop_def getMissingParams_def Let_def shallow_copy
  get_prop_at keys_of_at default_options_def read_prop_def endpoint_def
  fn_first_def params_props_def callback_objs_def effective_callback_def before_check_def
  missing_params_def before_options_def
  get_prop_at[of _ _ _ "[]", simplified] keys_of_at[of _ _ _ "[]", simplified]
  get_prop_at[of _ _ _ "[x]" for x, simplified] keys_of_at[of _ _ _ "[x]" for x, simplified]

lemma translate_endpoint:
  "translate = endpoint [''text''] translate_literals
     [(''Accept'', JStr ''application/json''), (''Content-Type'', JStr ''application/json'')] False"
proof (intro ext)
  fix stack this params callback h0
  show "translate stack this params callback h0 =
        endpoint [''text''] translate_literals
          [(''Accept'', JStr ''application/json''), (''Content-Type'', JStr ''application/json'')] False stack this params callback h0"
    by (cases "truthy callback"; cases "''text'' \<in> fst ` set (copied h0 params)")
      (simp_all add: translate_def method_simps translate_literals_def
        split: option.splits prod.splits)
qed

lemma identify_endpoint:
  "identify = endpoint [''text''] identify_literals
     [(''Accept'', JStr ''application/json''), (''Content-Type'', JStr ''text/plain'')] False"
proof (intro ext)
  fix stack this params callback h0
  show "identify stack this params callback h0 =
        endpoint [''text''] identify_literals
          [(''Accept'', JStr ''application/json''), (''Content-Type'', JStr ''text/plain'')] False stack this params callback h0"
    by (cases "truthy callback"; cases "''text'' \<in> fst ` set (copied h0 params)")
      (simp_all add: identify_def method_simps identify_literals_def
        split: option.splits prod.splits)
qed

lemma identifyPlain_endpoint:
  "identifyPlain = endpoint [''text''] identify_literals
     [(''Accept'', JStr ''text/plain''), (''Content-Type'', JStr ''text/plain'')] False"
proof (intro ext)
  fix stack this params callback h0
  show "identifyPlain stack this params callback h0 =
        endpoint [''text''] identify_literals
          [(''Accept'', JStr ''text/plain''), (''Content-Type'', JStr ''text/plain'')] False stack this params callback h0"
    by (cases "truthy callback"; cases "''text'' \<in> fst ` set (copied h0 params)")
      (simp_all add: identifyPlain_def method_simps identify_literals_def
        split: option.splits prod.splits)
qed

lemma listIdentifiableLanguages_endpoint:
  "listIdentifiableLanguages = endpoint [] listIdentifiableLanguages_literals
     [(''Accept'', JStr ''application/json'')] True"
proof (intro ext)
  fix stack this params callback h0
  show "listIdentifiableLanguages stack this params callback h0 =
        endpoint [] listIdentifiableLanguages_literals
          [(''Accept'', JStr ''application/json'')] True stack this params callback h0"
  proof (cases "typeof_function h0 params \<and> \<not> truthy callback")
    case True
    then show ?thesis
      by (simp add: listIdentifiableLanguages_def method_simps listIdentifiableLanguages_literals_def
          split: option.splits prod.splits)
  next
    case False
    then show ?thesis
      by (cases "truthy callback")
        (simp_all add: listIdentifiableLanguages_def method_simps listIdentifiableLanguages_literals_def
          split: option.splits prod.splits)
  qed
qed

lemma createModel_endpoint:
  "createModel = endpoint [''base_model_id''] createModel_literals
     [(''Accept'', JStr ''application/json''), (''Content-Type'', JStr ''multipart/form-data'')] False"
proof (intro ext)
  fix stack this params callback h0
  show "createModel stack this params callback h0 =
        endpoint [''base_model_id''] createModel_literals
          [(''Accept'', JStr ''application/json''), (''Content-Type'', JStr ''multipart/form-data'')] False stack this params callback h0"
    by (cases "truthy callback"; cases "''base_model_id'' \<in> fst ` set (copied h0 params)")
      (simp_all add: createModel_def method_simps createModel_literals_def
        split: option.splits prod.splits)
qed

lemma deleteModel_endpoint:
  "deleteModel = endpoint [''model_id''] (model_literals ''DELETE'')
     [(''Accept'', JStr ''application/json'')] False"
proof (intro ext)
  fix stack this params callback h0
  show "deleteModel stack this params callback h0 =
        endpoint [''model_id''] (model_literals ''DELETE'')
          [(''Accept'', JStr ''application/json'')] False stack this params callback h0"
    by (cases "truthy callback"; cases "''model_id'' \<in> fst ` set (copied h0 params)")
      (simp_all add: deleteModel_def method_simps model_literals_def
        split: option.splits prod.splits)
qed

lemma getModel_endpoint:
  "getModel = endpoint [''model_id''] (model_literals ''GET'')
     [(''Accept'', JStr ''application/json'')] False"
proof (intro ext)
  fix stack this params callback h0
  show "getModel stack this params callback h0 =
        endpoint [''model_id''] (model_literals ''GET'')
          [(''Accept'', JStr ''application/json'')] False stack this params callback h0"
    by (cases "truthy callback"; cases "''model_id'' \<in> fst ` set (copied h0 params)")
      (simp_all add: getModel_def method_simps model_literals_def
        split: option.splits prod.splits)
qed

lemma listModels_endpoint:
  "listModels = endpoint [] listModels_literals
     [(''Accept'', JStr ''application/json'')] True"
proof (intro ext)
  fix stack this params callback h0
  show "listModels stack this params callback h0 =
        endpoint [] listModels_literals
          [(''Accept'', JStr ''application/json'')] True stack this params callback h0"
  proof (cases "typeof_function h0 params \<and> \<not> truthy callback")
    case True
    then show ?thesis
      by (simp add: listModels_def method_simps listModels_literals_def
          split: option.splits prod.splits)
  next
    case False
    then show ?thesis
      by (cases "truthy callback")
        (simp_all add: listModels_def method_simps listModels_literals_def
          split: option.splits prod.splits)
  qed
qed

section \<open>What every method does\<close>

lemma default_options_frame:
  assumes "default_options stack this hdrs h = Some (d, h')"
  defines "hA \<equiv> h @ [\<lparr>kind = PlainObject, props = []\<rparr>, \<lparr>kind = PlainObject, props = hdrs\<rparr>,
             \<lparr>kind = PlainObject, props = [(''headers'', Ref (Suc (length h)))]\<rparr>]"
  defines "P \<equiv> {..<length hA} - {length h}"
  shows "d = Ref (length h)" and "keeps P hA h'" and "owned P h'"
proof -
  let ?t = "length h"
  let ?opts = "get_prop h this ''_options''"
  have Pb: "\<forall>a\<in>P. a < length hA" by (simp add: P_def)
  have tP: "?t \<notin> P" by (simp add: P_def)
  have tl: "?t < length hA" by (simp add: hA_def)
  have owA: "owned P hA"
    unfolding owned_def P_def hA_def by (auto simp: nth_append)
  obtain h1 where h1: "extend_into stack True ?t ?opts (keys_of hA ?opts) hA = Some h1"
    and h2: "extend_into stack True ?t (Ref (Suc (Suc ?t))) (keys_of h1 (Ref (Suc (Suc ?t)))) h1 = Some h'"
    and d: "d = Ref ?t"
    using assms(1)
    unfolding default_options_unfold[OF default_options_receiver[OF assms(1)]] extend_Ref hA_def
    by (auto split: option.splits)
  have f1: "keeps P hA h1" "owned P h1"
    using extend_into_frame[OF h1 TrueI tP tl Pb owA] by (rule conjunct1, rule conjunct2)
  have P1: "\<forall>a\<in>P. a < length h1" using keeps_bound[OF f1(1) Pb] .
  have t1: "?t < length h1" using tl f1(1) by (simp add: keeps_def)
  have f2: "keeps P h1 h'" "owned P h'"
    using extend_into_frame[OF h2 TrueI tP t1 P1 f1(2)] by (rule conjunct1, rule conjunct2)
  show "d = Ref (length h)" by (rule d)
  show "keeps P hA h'" using f1(1) f2(1) by (rule keeps_trans)
  show "owned P h'" by (rule f2(2))
qed

lemma default_options_keeps:
  assumes "default_options stack this hdrs h = Some (d, h')"
  shows "keeps {..<length h} h h'"
proof -
  have "keeps {..<length h} (h @ [\<lparr>kind = PlainObject, props = []\<rparr>, \<lparr>kind = PlainObject, props = hdrs\<rparr>,
             \<lparr>kind = PlainObject, props = [(''headers'', Ref (Suc (length h)))]\<rparr>]) h'"
    using default_options_frame(2)[OF assms] by (rule keeps_mono) auto
  then show ?thesis by (auto simp: keeps_def nth_append)
qed

lemma before_check_keeps: "keeps {..<length h0} h0 (before_check swap h0 params callback)"
  by (auto simp: keeps_def before_check_def nth_append)

lemma before_options_keeps:
  "keeps {..<length h0} h0 (before_options literals swap h0 params callback)"
  by (auto simp: keeps_def before_options_def before_check_def nth_append)

lemma keeps_append_right: "keeps P h h' \<Longrightarrow> \<forall>a\<in>P. a < length h \<Longrightarrow> keeps P h (h' @ obs)"
  by (auto simp: keeps_def nth_append)

text \<open>A method writes to no object that existed when it was called.\<close>

lemma endpoint_frame:
  assumes "endpoint required literals hdrs swap stack this params callback h0 = Some (tc, h')"
  shows "keeps {..<length h0} h0 h'"
proof (cases "missing_params required (params_props swap h0 params callback) = []")
  case False
  then have "h' = before_check swap h0 params callback @
      [\<lparr>kind = MissingParamsError (missing_params required (params_props swap h0 params callback)),
        props = []\<rparr>]"
    using assms by (simp add: endpoint_def Let_def)
  then show ?thesis using before_check_keeps[of h0 swap params callback]
    by (simp add: keeps_append_right)
next
  case True
  let ?h2 = "before_options literals swap h0 params callback"
  obtain d h3 where d: "default_options stack this hdrs ?h2 = Some (d, h3)"
    and h': "h' = h3 @ [\<lparr>kind = PlainObject, props =
                [(''options'', Ref (length ?h2 - 1)), (''defaultOptions'', d)]\<rparr>]"
    using assms True by (auto simp: endpoint_def Let_def split: option.splits)
  have k2: "keeps {..<length h0} h0 ?h2" by (rule before_options_keeps)
  have "keeps {..<length h0} ?h2 h3"
    using default_options_keeps[OF d] k2 by (auto simp: keeps_def)
  then have "keeps {..<length h0} h0 h3" using k2 by (rule keeps_trans[rotated])
  then show ?thesis unfolding h' by (simp add: keeps_append_right)
qed

lemmas invoke_endpoint =
  translate_endpoint identify_endpoint identifyPlain_endpoint listIdentifiableLanguages_endpoint
  createModel_endpoint deleteModel_endpoint getModel_endpoint listModels_endpoint

lemma invoke_frame:
  "invoke m stack this params callback h = Some (tc, h') \<Longrightarrow> keeps {..<length h} h h'"
  by (cases m) (auto simp: invoke_endpoint dest: endpoint_frame)

subsection \<open>The request a method builds\<close>

lemma keeps_update: "c \<notin> P \<Longrightarrow> keeps P h (h[c := ob])"
  by (auto simp: keeps_def) (metis nth_list_update_neq)

lemma default_options_result:
  fixes h0 h :: heap and hdrs :: "(string \<times> jsval) list"
  defines "hA \<equiv> h @ [\<lparr>kind = PlainObject, props = []\<rparr>, \<lparr>kind = PlainObject, props = hdrs\<rparr>,
             \<lparr>kind = PlainObject, props = [(''headers'', Ref (Suc (length h)))]\<rparr>]"
  defines "P \<equiv> {..<length hA} - {length h}"
  assumes closed: "heap_closed h0" and pre: "keeps {..<length h0} h0 h" and thi: "in_heap h0 this"
    and st: "0 < stack" and nw: "nests_within stack h0 (get_prop h0 this ''_options'')"
    and prim: "\<forall>(k, v) \<in> set hdrs. \<exists>s. v = JStr s"
    and dist: "distinct (map fst hdrs)" and nh: "''headers'' \<notin> fst ` set hdrs"
    and rcv: "this \<noteq> Undefined" "this \<noteq> Null"
  obtains h' c where
    "default_options stack this hdrs h = Some (Ref (length h), h')"
    "keeps P hA h'"
    "get_prop h' (Ref (length h)) ''headers'' = Ref c" "c < length h'"
    "\<forall>(k, v) \<in> set hdrs. get_prop h' (Ref c) k = v"
proof -
  let ?t = "length h"
  obtain h1 c h2 where
    k1: "keeps P hA h1"
    and cf: "clone_for h1 (get_prop h1 (Ref ?t) ''headers'') (Ref (Suc ?t)) = (Ref c, h2)"
    and cP: "c \<notin> P" and cl: "c < length h2" and k2: "keeps P h1 h2"
    and res: "default_options stack this hdrs h =
       Some (Ref ?t, set_prop
         (h2[c := (h2 ! c)\<lparr>props := copy_props h2 (Ref (Suc ?t)) c (map fst hdrs) (props (h2 ! c))\<rparr>])
         ?t ''headers'' (Ref c))"
    using default_options_ok[OF closed pre thi st nw prim rcv, of thesis]
    unfolding hA_def P_def by blast
  let ?h3 = "h2[c := (h2 ! c)\<lparr>props := copy_props h2 (Ref (Suc ?t)) c (map fst hdrs) (props (h2 ! c))\<rparr>]"
  let ?h' = "set_prop ?h3 ?t ''headers'' (Ref c)"
  have tP: "?t \<notin> P" by (simp add: P_def)
  have k12: "keeps P hA h2" using k1 k2 by (rule keeps_trans)
  have kf: "keeps P hA ?h'"
    using k12 keeps_update[OF cP, of h2] keeps_set_prop[OF tP, of ?h3]
    by (blast intro: keeps_trans)
  have mem: "Suc ?t \<in> P" by (auto simp: P_def hA_def)
  have H2: "h2 ! Suc ?t = \<lparr>kind = PlainObject, props = hdrs\<rparr>"
    using k12 mem by (auto simp: keeps_def hA_def nth_append)
  have l2: "Suc ?t < length h2" "?t < length h2" using k12 by (auto simp: keeps_def hA_def)
  have g1: "get_prop ?h' (Ref ?t) ''headers'' = Ref c"
    using l2 by (simp add: get_prop_def set_prop_props AList.update_conv')
  have g2: "\<forall>(k, v) \<in> set hdrs. get_prop ?h' (Ref c) k = v"
  proof (clarify)
    fix k v assume kv: "(k, v) \<in> set hdrs"
    then obtain s where s: "v = JStr s" using prim by auto
    have kh: "k \<noteq> ''headers''" using kv nh by force
    have ks: "k \<in> set (map fst hdrs)" using kv by force
    have "map_of hdrs k = Some v" using kv dist by (rule map_of_is_SomeI[rotated])
    then have gv: "get_prop h2 (Ref (Suc ?t)) k = v"
      using l2 H2 by (simp add: get_prop_def)
    have "map_of (copy_props h2 (Ref (Suc ?t)) c (map fst hdrs) (props (h2 ! c))) k = Some v"
      using ks gv s by (simp add: map_of_copy_props)
    then have "map_of (props (?h3 ! c)) k = Some v" using cl by simp
    then have "map_of (props (?h' ! c)) k = Some v"
      using cl kh by (cases "c = ?t") (simp_all add: set_prop_props AList.update_conv')
    then show "get_prop ?h' (Ref c) k = v" using cl by (simp add: get_prop_def)
  qed
  have cl': "c < length ?h'" using cl by simp
  show ?thesis using that[OF res kf g1 cl' g2] .
qed

lemma lookup_copied: "heap_closed h \<Longrightarrow> lookup (copied h params) k = get_prop h params k"
proof -
  assume "heap_closed h"
  then have "get_prop h params k \<noteq> Ref (length h)"
    using heap_closed_get_prop[of h params k] by (auto simp: in_heap_def)
  then show ?thesis by (simp add: lookup_def map_of_copied)
qed

lemma in_copied: "heap_closed h \<Longrightarrow> k \<in> fst ` set (copied h params) \<longleftrightarrow> present h params k"
proof -
  assume "heap_closed h"
  then have "get_prop h params k \<noteq> Ref (length h)"
    using heap_closed_get_prop[of h params k] by (auto simp: in_heap_def)
  then show ?thesis by (simp add: keys_copied present_def)
qed

text \<open>
  When nothing is missing, a well-formed call ends in \<^verbatim>\<open>createRequest(parameters, _callback)\<close>:
  \<open>parameters\<close> is the last object of the store, its \<open>options\<close> is the last literal of
  the method, the objects made before \<^verbatim>\<open>extend\<close> was called are untouched, and the
  headers of its \<open>defaultOptions\<close> hold the per-method defaults.
\<close>

lemma endpoint_view:
  fixes h0 :: heap
  assumes wf: "well_formed_call stack this params callback h0"
    and nomiss: "missing_params required (params_props swap h0 params callback) = []"
    and prim: "\<forall>(k, v) \<in> set hdrs. \<exists>s. v = JStr s"
    and dist: "distinct (map fst hdrs)" and nh: "''headers'' \<notin> fst ` set hdrs"
  obtains h' c where
    "endpoint required literals hdrs swap stack this params callback h0 =
       Some (Call_createRequest [Ref (length h' - 1), effective_callback swap h0 params callback], h')"
    "length (before_options literals swap h0 params callback) + 3 < length h'"
    "\<forall>i<length (before_options literals swap h0 params callback).
        h' ! i = before_options literals swap h0 params callback ! i"
    "h' ! (length h' - 1) = \<lparr>kind = PlainObject, props =
        [(''options'', Ref (length (before_options literals swap h0 params callback) - 1)),
         (''defaultOptions'', Ref (length (before_options literals swap h0 params callback)))]\<rparr>"
    "get_prop h' (Ref (length (before_options literals swap h0 params callback))) ''headers'' = Ref c"
    "c < length h' - 1"
    "\<forall>(k, v) \<in> set hdrs. get_prop h' (Ref c) k = v"
proof -
  let ?h2 = "before_options literals swap h0 params callback"
  let ?hA = "?h2 @ [\<lparr>kind = PlainObject, props = []\<rparr>, \<lparr>kind = PlainObject, props = hdrs\<rparr>,
             \<lparr>kind = PlainObject, props = [(''headers'', Ref (Suc (length ?h2)))]\<rparr>]"
  let ?PA = "\<lparr>kind = PlainObject, props =
                [(''options'', Ref (length ?h2 - 1)), (''defaultOptions'', Ref (length ?h2))]\<rparr>"
  have closed: "heap_closed h0" and thi: "in_heap h0 this" and st: "0 < stack"
    and nw: "nests_within stack h0 (get_prop h0 this ''_options'')"
    and rcv: "this \<noteq> Undefined" "this \<noteq> Null"
    using wf by (auto simp: well_formed_call_def)
  have pre: "keeps {..<length h0} h0 ?h2" by (rule before_options_keeps)
  obtain h3 c where
    r: "default_options stack this hdrs ?h2 = Some (Ref (length ?h2), h3)"
    and k: "keeps ({..<length ?hA} - {length ?h2}) ?hA h3"
    and g1: "get_prop h3 (Ref (length ?h2)) ''headers'' = Ref c"
    and cl: "c < length h3"
    and g2: "\<forall>(k, v) \<in> set hdrs. get_prop h3 (Ref c) k = v"
    by (rule default_options_result[OF closed pre thi st nw prim dist nh rcv])
  let ?h' = "h3 @ [?PA]"
  have l3: "length ?h2 + 3 \<le> length h3" using k by (simp add: keeps_def)
  have e: "endpoint required literals hdrs swap stack this params callback h0 =
       Some (Call_createRequest [Ref (length ?h' - 1), effective_callback swap h0 params callback], ?h')"
    using nomiss r by (simp add: endpoint_def Let_def)
  have a: "length ?h2 + 3 < length ?h'" using l3 by simp
  have b: "\<forall>i<length ?h2. ?h' ! i = ?h2 ! i"
    using k l3 by (auto simp: keeps_def nth_append)
  have c: "?h' ! (length ?h' - 1) = ?PA" by simp
  have gp: "\<And>a k. a < length h3 \<Longrightarrow> get_prop ?h' (Ref a) k = get_prop h3 (Ref a) k"
    by (simp add: get_prop_def nth_append)
  have lt: "length ?h2 < length h3" using l3 by simp
  have d: "get_prop ?h' (Ref (length ?h2)) ''headers'' = Ref c" using g1 gp[OF lt] by simp
  have f: "\<forall>(k, v) \<in> set hdrs. get_prop ?h' (Ref c) k = v" using g2 gp[OF cl] by simp
  show ?thesis using that[OF e a b c d _ f] cl by simp
qed

lemma before_options_nth:
  "i < length (literals (lookup (params_props swap h0 params callback))
                 (length (before_check swap h0 params callback))) \<Longrightarrow>
   before_options literals swap h0 params callback ! (length (before_check swap h0 params callback) + i) =
   literals (lookup (params_props swap h0 params callback))
     (length (before_check swap h0 params callback)) ! i"
  by (simp add: before_options_def)

lemma before_options_length:
  "length (before_options literals swap h0 params callback) =
   length (before_check swap h0 params callback) +
   length (literals (lookup (params_props swap h0 params callback))
             (length (before_check swap h0 params callback)))"
  by (simp add: before_options_def)

text \<open>The same for the six methods with one required parameter, in terms of the caller's store.\<close>

lemma required_view:
  fixes h0 :: heap
  defines "n \<equiv> first_literal h0"
  assumes wf: "well_formed_call stack this params callback h0"
    and pres: "present h0 params r"
    and prim: "\<forall>(k, v) \<in> set hdrs. \<exists>s. v = JStr s"
    and dist: "distinct (map fst hdrs)" and nh: "''headers'' \<notin> fst ` set hdrs"
  obtains h' c where
    "endpoint [r] literals hdrs False stack this params callback h0 =
       Some (Call_createRequest
               [Ref (length h' - 1), if truthy callback then callback else Ref (Suc (length h0))], h')"
    "n callback + length (literals (get_prop h0 params) (n callback)) + 3 < length h'"
    "\<forall>i<length (literals (get_prop h0 params) (n callback)).
        h' ! (n callback + i) = literals (get_prop h0 params) (n callback) ! i"
    "\<forall>i<length h0. h' ! i = h0 ! i"
    "h' ! (length h' - 1) = \<lparr>kind = PlainObject, props =
        [(''options'', Ref (n callback + length (literals (get_prop h0 params) (n callback)) - 1)),
         (''defaultOptions'', Ref (n callback + length (literals (get_prop h0 params) (n callback))))]\<rparr>"
    "get_prop h' (Ref (n callback + length (literals (get_prop h0 params) (n callback)))) ''headers'' = Ref c"
    "c < length h' - 1"
    "\<forall>(k, v) \<in> set hdrs. get_prop h' (Ref c) k = v"
proof -
  have closed: "heap_closed h0" using wf by (simp add: well_formed_call_def)
  have pp: "params_props False h0 params callback = copied h0 params"
    by (simp add: params_props_def fn_first_def)
  have rd: "lookup (params_props False h0 params callback) = get_prop h0 params"
    unfolding pp by (rule ext) (simp add: lookup_copied[OF closed])
  have nm: "missing_params [r] (params_props False h0 params callback) = []"
    using pres by (simp add: missing_params_def pp in_copied[OF closed])
  have lb: "length (before_check False h0 params callback) = n callback"
    by (simp add: before_check_def callback_objs_def fn_first_def n_def first_literal_def)
  have bo: "before_options literals False h0 params callback =
            before_check False h0 params callback @ literals (get_prop h0 params) (n callback)"
    by (simp add: before_options_def rd lb)
  have ec: "effective_callback False h0 params callback =
            (if truthy callback then callback else Ref (Suc (length h0)))"
    by (simp add: effective_callback_def fn_first_def)
  obtain h' c where
    e: "endpoint [r] literals hdrs False stack this params callback h0 =
       Some (Call_createRequest [Ref (length h' - 1), effective_callback False h0 params callback], h')"
    and a: "length (before_options literals False h0 params callback) + 3 < length h'"
    and b: "\<forall>i<length (before_options literals False h0 params callback).
        h' ! i = before_options literals False h0 params callback ! i"
    and l: "h' ! (length h' - 1) = \<lparr>kind = PlainObject, props =
        [(''options'', Ref (length (before_options literals False h0 params callback) - 1)),
         (''defaultOptions'', Ref (length (before_options literals False h0 params callback)))]\<rparr>"
    and g: "get_prop h' (Ref (length (before_options literals False h0 params callback))) ''headers'' = Ref c"
    and cl: "c < length h' - 1"
    and hv: "\<forall>(k, v) \<in> set hdrs. get_prop h' (Ref c) k = v"
    by (rule endpoint_view[OF wf nm prim dist nh])
  have len: "length (before_options literals False h0 params callback) =
             n callback + length (literals (get_prop h0 params) (n callback))"
    by (simp add: bo lb)
  have b1: "\<forall>i<length (literals (get_prop h0 params) (n callback)).
        h' ! (n callback + i) = literals (get_prop h0 params) (n callback) ! i"
    using b by (simp add: len) (simp add: bo lb[symmetric])
  have b0: "\<forall>i<length h0. h' ! i = h0 ! i"
  proof (intro allI impI)
    fix i assume i: "i < length h0"
    then have "i < length (before_options literals False h0 params callback)"
      by (simp add: len n_def first_literal_def)
    then have "h' ! i = before_options literals False h0 params callback ! i" using b by blast
    then show "h' ! i = h0 ! i" using i by (simp add: bo before_check_def nth_append)
  qed
  show ?thesis
    using that[of h' c] e a b1 b0 l g cl hv unfolding len ec by blast
qed

text \<open>The same for the two methods without required parameters.\<close>

lemma optional_view:
  fixes h0 :: heap
  defines "n \<equiv> \<lambda>params callback. length (before_check True h0 params callback)"
  defines "rd \<equiv> \<lambda>params callback k.
     if typeof_function h0 params \<and> \<not> truthy callback then Undefined else get_prop h0 params k"
  assumes wf: "well_formed_call stack this params callback h0"
    and prim: "\<forall>(k, v) \<in> set hdrs. \<exists>s. v = JStr s"
    and dist: "distinct (map fst hdrs)" and nh: "''headers'' \<notin> fst ` set hdrs"
  obtains h' c where
    "endpoint [] literals hdrs True stack this params callback h0 =
       Some (Call_createRequest
               [Ref (length h' - 1), effective_callback True h0 params callback], h')"
    "n params callback + length (literals (rd params callback) (n params callback)) + 3 < length h'"
    "\<forall>i<length (literals (rd params callback) (n params callback)).
        h' ! (n params callback + i) = literals (rd params callback) (n params callback) ! i"
    "\<forall>i<n params callback. h' ! i = before_check True h0 params callback ! i"
    "h' ! (length h' - 1) = \<lparr>kind = PlainObject, props =
        [(''options'', Ref (n params callback + length (literals (rd params callback) (n params callback)) - 1)),
         (''defaultOptions'', Ref (n params callback + length (literals (rd params callback) (n params callback))))]\<rparr>"
    "get_prop h' (Ref (n params callback + length (literals (rd params callback) (n params callback)))) ''headers'' = Ref c"
    "c < length h' - 1"
    "\<forall>(k, v) \<in> set hdrs. get_prop h' (Ref c) k = v"
proof -
  have closed: "heap_closed h0" using wf by (simp add: well_formed_call_def)
  have rd': "lookup (params_props True h0 params callback) = rd params callback"
    using lookup_copied[OF closed, of params]
    by (intro ext) (simp add: params_props_def fn_first_def rd_def lookup_def[of "[]"])
  have nm: "missing_params [] (params_props True h0 params callback) = []"
    by (simp add: missing_params_def)
  have bo: "before_options literals True h0 params callback =
            before_check True h0 params callback @ literals (rd params callback) (n params callback)"
    by (simp add: before_options_def rd' n_def)
  obtain h' c where
    e: "endpoint [] literals hdrs True stack this params callback h0 =
       Some (Call_createRequest [Ref (length h' - 1), effective_callback True h0 params callback], h')"
    and a: "length (before_options literals True h0 params callback) + 3 < length h'"
    and b: "\<forall>i<length (before_options literals True h0 params callback).
        h' ! i = before_options literals True h0 params callback ! i"
    and l: "h' ! (length h' - 1) = \<lparr>kind = PlainObject, props =
        [(''options'', Ref (length (before_options literals True h0 params callback) - 1)),
         (''defaultOptions'', Ref (length (before_options literals True h0 params callback)))]\<rparr>"
    and g: "get_prop h' (Ref (length (before_options literals True h0 params callback))) ''headers'' = Ref c"
    and cl: "c < length h' - 1"
    and hv: "\<forall>(k, v) \<in> set hdrs. get_prop h' (Ref c) k = v"
    by (rule endpoint_view[OF wf nm prim dist nh])
  have len: "length (before_options literals True h0 params callback) =
             n params callback + length (literals (rd params callback) (n params callback))"
    by (simp add: bo n_def)
  have b1: "\<forall>i<length (literals (rd params callback) (n params callback)).
        h' ! (n params callback + i) = literals (rd params callback) (n params callback) ! i"
    using b by (simp add: len) (simp add: bo n_def)
  have b0: "\<forall>i<n params callback. h' ! i = before_check True h0 params callback ! i"
  proof (intro allI impI)
    fix i assume i: "i < n params callback"
    then have "i < length (before_options literals True h0 params callback)"
      by (simp add: len)
    then have "h' ! i = before_options literals True h0 params callback ! i" using b by blast
    then show "h' ! i = before_check True h0 params callback ! i"
      using i by (simp add: bo n_def nth_append)
  qed
  show ?thesis
    using that[of h' c] e a b1 b0 l g cl hv unfolding len by blast
qed

lemma endpoint_fresh:
  assumes "endpoint required literals hdrs swap stack this params callback h0 =
             Some (Call_createRequest [p, cb], h')"
  shows "\<exists>a d. p = Ref a \<and> length h0 \<le> d \<and> d < a \<and> a < length h' \<and>
           get_prop h' p ''defaultOptions'' = Ref d \<and>
           (\<forall>k b. (k, Ref b) \<in> set (props (h' ! d)) \<longrightarrow> b < length h0 \<longrightarrow> \<not> cloneable h' (Ref b))"
proof -
  let ?h2 = "before_options literals swap h0 params callback"
  let ?hA = "?h2 @ [\<lparr>kind = PlainObject, props = []\<rparr>, \<lparr>kind = PlainObject, props = hdrs\<rparr>,
             \<lparr>kind = PlainObject, props = [(''headers'', Ref (Suc (length ?h2)))]\<rparr>]"
  let ?P = "{..<length ?hA} - {length ?h2}"
  obtain d h3 where d: "default_options stack this hdrs ?h2 = Some (d, h3)"
    and h': "h' = h3 @ [\<lparr>kind = PlainObject, props =
                [(''options'', Ref (length ?h2 - 1)), (''defaultOptions'', d)]\<rparr>]"
    and p: "p = Ref (length h3)"
    using assms by (auto simp: endpoint_def Let_def split: option.splits if_splits)
  have dt: "d = Ref (length ?h2)" and k: "keeps ?P ?hA h3" and ow: "owned ?P h3"
    using default_options_frame[OF d] by auto
  have l0: "length h0 \<le> length ?h2" by (simp add: before_options_def before_check_def)
  have l3: "length ?h2 < length h3" using k by (simp add: keeps_def)
  have sh: "\<forall>k b. (k, Ref b) \<in> set (props (h' ! length ?h2)) \<longrightarrow> b < length h0 \<longrightarrow>
              \<not> cloneable h' (Ref b)"
  proof (intro allI impI)
    fix k b
    assume m: "(k, Ref b) \<in> set (props (h' ! length ?h2))" and b: "b < length h0"
    have "(k, Ref b) \<in> set (props (h3 ! length ?h2))" using m l3 by (simp add: h' nth_append)
    moreover have "b \<in> ?P" using b l0 by auto
    ultimately have "\<not> cloneable h3 (Ref b)" using ow l3 unfolding owned_def by blast
    moreover have "b < length h3" using b l0 l3 by simp
    ultimately show "\<not> cloneable h' (Ref b)"
      by (simp add: h' cloneable_def isPlainObject_def isArray_def nth_append)
  qed
  have "get_prop h' p ''defaultOptions'' = d"
    unfolding h' p by (simp add: get_prop_at lookup_def)
  then show ?thesis using p dt l0 l3 sh by (auto simp: h')
qed

lemma invoke_fresh:
  "invoke m stack this params callback h = Some (Call_createRequest [p, cb], h') \<Longrightarrow>
   \<exists>a d. p = Ref a \<and> length h \<le> d \<and> d < a \<and> a < length h' \<and>
     get_prop h' p ''defaultOptions'' = Ref d \<and>
     (\<forall>k b. (k, Ref b) \<in> set (props (h' ! d)) \<longrightarrow> b < length h \<longrightarrow> \<not> cloneable h' (Ref b))"
  by (cases m) (auto simp: invoke_endpoint dest!: endpoint_fresh)

subsection \<open>All methods at once\<close>

lemma invoke_is_endpoint:
  "invoke m = endpoint (requiredParams m) (literals_of m) (headers_of m) (callback_first m)"
  by (cases m) (simp_all add: invoke_endpoint)

lemma headers_of_ok:
  "\<forall>(k, v) \<in> set (headers_of m). \<exists>s. v = JStr s"
  "distinct (map fst (headers_of m))"
  "''headers'' \<notin> fst ` set (headers_of m)"
  by (cases m; simp)+

lemma required_not_first: "callback_first m \<Longrightarrow> requiredParams m = []"
  by (cases m) simp_all

lemma missing_params_present:
  assumes "heap_closed h"
  shows "missing_params (requiredParams m) (params_props (callback_first m) h params callback) =
         filter (\<lambda>r. \<not> present h params r) (requiredParams m)"
proof (cases "callback_first m")
  case True
  then show ?thesis by (simp add: required_not_first missing_params_def)
next
  case False
  then show ?thesis
    by (simp add: missing_params_def params_props_def fn_first_def in_copied[OF assms])
qed

lemma missing_params_absent:
  assumes "\<not> (\<forall>r\<in>set (requiredParams m). present h params r)"
  shows "missing_params (requiredParams m) (params_props (callback_first m) h params callback) \<noteq> []"
proof -
  obtain r where r: "r \<in> set (requiredParams m)" "\<not> present h params r" using assms by blast
  have nf: "\<not> callback_first m" using r(1) required_not_first by fastforce
  have "r \<notin> fst ` set (copied h params)" using r(2) by (simp add: keys_copied present_def)
  then show ?thesis
    using r(1) nf by (auto simp: missing_params_def params_props_def fn_first_def filter_empty_conv)
qed

lemma endpoint_missing:
  assumes "missing_params required (params_props swap h0 params callback) \<noteq> []"
  shows "endpoint required literals hdrs swap stack this params callback h0 =
     Some (Call_callback (effective_callback swap h0 params callback)
             [Ref (length (before_check swap h0 params callback))],
           before_check swap h0 params callback @
             [\<lparr>kind = MissingParamsError (missing_params required (params_props swap h0 params callback)),
               props = []\<rparr>])"
  using assms by (simp add: endpoint_def Let_def)

text \<open>
  Whatever a method ends in, the callback it passes is \<^verbatim>\<open>_callback\<close>; and when no callback
  was given (and \<^verbatim>\<open>params\<close> is not taken for one), that is a new function that does
  nothing.
\<close>

lemma endpoint_callback:
  assumes "endpoint required literals hdrs swap stack this params callback h0 = Some (tc, h')"
  shows "(\<exists>e. tc = Call_callback (effective_callback swap h0 params callback) [e]) \<or>
         (\<exists>p. tc = Call_createRequest [p, effective_callback swap h0 params callback])"
    and "\<not> fn_first swap h0 params callback \<Longrightarrow> \<not> truthy callback \<Longrightarrow>
         kind_of h' (effective_callback swap h0 params callback) = Some (Function Noop)"
proof -
  show "(\<exists>e. tc = Call_callback (effective_callback swap h0 params callback) [e]) \<or>
         (\<exists>p. tc = Call_createRequest [p, effective_callback swap h0 params callback])"
    using assms by (auto simp: endpoint_def Let_def split: option.splits if_splits)
  assume nf: "\<not> fn_first swap h0 params callback" and nt: "\<not> truthy callback"
  have ec: "effective_callback swap h0 params callback = Ref (Suc (length h0))"
    using nf nt by (simp add: effective_callback_def)
  let ?h1 = "before_check swap h0 params callback"
  have h1: "?h1 ! Suc (length h0) = \<lparr>kind = Function Noop, props = []\<rparr>"
      "Suc (length h0) < length ?h1"
    using nf nt by (simp_all add: before_check_def callback_objs_def nth_append)
  have "keeps {..<length ?h1} ?h1 h'"
  proof (cases "missing_params required (params_props swap h0 params callback) = []")
    case False
    then show ?thesis using assms by (auto simp: endpoint_missing keeps_append)
  next
    case True
    let ?h2 = "before_options literals swap h0 params callback"
    obtain d h3 where d: "default_options stack this hdrs ?h2 = Some (d, h3)"
      and h': "h' = h3 @ [\<lparr>kind = PlainObject, props =
                  [(''options'', Ref (length ?h2 - 1)), (''defaultOptions'', d)]\<rparr>]"
      using assms True by (auto simp: endpoint_def Let_def split: option.splits)
    have k2: "keeps {..<length ?h1} ?h1 ?h2" by (simp add: before_options_def keeps_append)
    have "keeps {..<length ?h1} ?h2 h3"
      using default_options_keeps[OF d] k2 by (auto simp: keeps_def)
    then have "keeps {..<length ?h1} ?h1 h3" using k2 by (rule keeps_trans[rotated])
    then show ?thesis unfolding h' by (simp add: keeps_append_right)
  qed
  then have "h' ! Suc (length h0) = ?h1 ! Suc (length h0)" "Suc (length h0) < length h'"
    using h1(2) by (auto simp: keeps_def)
  then show "kind_of h' (effective_callback swap h0 params callback) = Some (Function Noop)"
    using h1(1) by (simp add: ec)
qed

text \<open>
  On a receiver that is \<^verbatim>\<open>undefined\<close> or \<^verbatim>\<open>null\<close> a method whose required parameters are
  present throws at \<^verbatim>\<open>this._options\<close>; so a request is built only on another receiver.
\<close>

lemma invoke_throws:
  assumes "this = Undefined \<or> this = Null" and "heap_closed h"
    and "\<forall>r\<in>set (requiredParams m). present h params r"
  shows "invoke m stack this params callback h = None"
proof -
  have "missing_params (requiredParams m) (params_props (callback_first m) h params callback) = []"
    using assms(3) by (simp add: missing_params_present[OF assms(2)])
  then show ?thesis
    unfolding invoke_is_endpoint
    by (simp add: endpoint_def Let_def default_options_throws[OF assms(1)])
qed

lemma invoke_receiver:
  assumes "invoke m stack this params callback h = Some (Call_createRequest args, h')"
  shows "this \<noteq> Undefined" and "this \<noteq> Null"
proof -
  let ?h2 = "before_options (literals_of m) (callback_first m) h params callback"
  obtain r where "default_options stack this (headers_of m) ?h2 = Some r"
    using assms unfolding invoke_is_endpoint
    by (auto simp: endpoint_def Let_def split: option.splits if_splits)
  then show "this \<noteq> Undefined" and "this \<noteq> Null" by (rule default_options_receiver)+
qed
subsection \<open>Comparing two runs\<close>

lemma unreached_beyond:
  assumes "\<forall>a<length h. a \<notin> X \<longrightarrow> (\<forall>k b. (k, Ref b) \<in> set (props (h ! a)) \<longrightarrow> b < N)"
    and "\<forall>x\<in>X. N \<le> x"
  shows "unreached X h"
  using assms unfolding unreached_def by (meson not_less)

lemma copy_props_values:
  "(k, v) \<in> set (copy_props h s t ks acc) \<Longrightarrow> (k, v) \<in> set acc \<or> v = get_prop h s k"
  by (induction ks arbitrary: acc) (auto simp: Let_def split: if_splits dest: set_update_cases)

lemma copied_in_heap:
  assumes "heap_closed h" "(k, Ref b) \<in> set (copied h params)"
  shows "b < length h"
proof -
  have "get_prop h params k = Ref b"
    using copy_props_values[OF assms(2)[unfolded copied_def]] by simp
  then show ?thesis using heap_closed_get_prop[OF assms(1), of params k] by (simp add: in_heap_def)
qed

lemma before_check_refs:
  assumes "heap_closed h0" "a < length (before_check swap h0 params callback)"
    "(k, Ref b) \<in> set (props (before_check swap h0 params callback ! a))"
  shows "b < length h0"
proof (cases "a < length h0")
  case True
  then have "(k, Ref b) \<in> set (props (h0 ! a))"
    using assms(3) by (simp add: before_check_def nth_append)
  then show ?thesis using assms(1) True unfolding heap_closed_def by (force split: jsval.splits)
next
  case False
  show ?thesis
  proof (cases "a = length h0")
    case True
    then have "(k, Ref b) \<in> set (params_props swap h0 params callback)"
      using assms(3) by (simp add: before_check_def nth_append)
    then show ?thesis using copied_in_heap[OF assms(1)]
      by (auto simp: params_props_def split: if_splits)
  next
    case F: False
    then have "a = Suc (length h0)" "callback_objs swap h0 params callback =
        [\<lparr>kind = Function Noop, props = []\<rparr>]"
      using False assms(2) by (auto simp: before_check_def callback_objs_def split: if_splits)
    then show ?thesis using assms(3) by (simp add: before_check_def nth_append)
  qed
qed

lemma lookup_copied_in_heap: "heap_closed h \<Longrightarrow> get_prop h params k = Ref b \<Longrightarrow> b < length h"
  using heap_closed_get_prop[of h params k] by (simp add: in_heap_def)

text \<open>
  Two stores that differ only at addresses nothing else refers to give the same default
  options, and still differ only there.
\<close>

lemma default_options_agree:
  assumes ag: "agree X h g" and un: "unreached X h" and Xb: "\<forall>a\<in>X. a < length h"
    and thi: "in_region (- X) this" and prim: "\<forall>(k, v) \<in> set hdrs. \<exists>s. v = JStr s"
    and r: "default_options stack this hdrs h = Some (d, h')"
  shows "\<exists>g'. default_options stack this hdrs g = Some (d, g') \<and> agree X h' g'"
proof -
  let ?t = "length h"
  let ?N = "[\<lparr>kind = PlainObject, props = []\<rparr>, \<lparr>kind = PlainObject, props = hdrs\<rparr>,
             \<lparr>kind = PlainObject, props = [(''headers'', Ref (Suc (length h)))]\<rparr>]"
  let ?hA = "h @ ?N" and ?gA = "g @ ?N"
  let ?opts = "get_prop h this ''_options''"
  have lg: "length g = length h" using ag by (simp add: agree_def)
  have go: "get_prop g this ''_options'' = ?opts" using ag thi by (rule agree_get_prop)
  have agA: "agree X ?hA ?gA" using ag by (auto simp: agree_def nth_append)
  have unA: "unreached X ?hA"
    unfolding unreached_def
  proof (intro allI impI)
    fix a k b
    assume a: "a < length ?hA" "a \<notin> X" and m: "(k, Ref b) \<in> set (props (?hA ! a))"
    show "b \<notin> X"
    proof (cases "a < length h")
      case True
      then show ?thesis using un a(2) m by (auto simp: unreached_def nth_append)
    next
      case False
      then have "a = ?t \<or> a = Suc ?t \<or> a = Suc (Suc ?t)" using a(1) by auto
      then show ?thesis using m prim Xb by (auto simp: nth_append)
    qed
  qed
  have XA: "\<forall>a\<in>X. a < length ?hA" using Xb by auto
  have tX: "?t \<notin> X" using Xb by auto
  have iro: "in_region (- X) ?opts"
    using unreached_get_prop[OF un thi] .
  obtain h1 where h1: "extend_into stack True ?t ?opts (keys_of ?hA ?opts) ?hA = Some h1"
    and h2: "extend_into stack True ?t (Ref (Suc (Suc ?t))) (keys_of h1 (Ref (Suc (Suc ?t)))) h1 = Some h'"
    and d: "d = Ref ?t"
    using r unfolding default_options_unfold[OF default_options_receiver[OF r]] extend_Ref
    by (auto split: option.splits)
  have ko: "keys_of ?gA ?opts = keys_of ?hA ?opts" using agA iro by (rule agree_keys_of)
  obtain g1 where g1: "extend_into stack True ?t ?opts (keys_of ?hA ?opts) ?gA = Some g1"
    and ag1: "agree X h1 g1" and un1: "unreached X h1" and l1: "length ?hA \<le> length h1"
    using extend_into_agree[OF agA unA XA tX iro, of stack True "keys_of ?hA ?opts"] h1 by auto
  have X1: "\<forall>a\<in>X. a < length h1" using XA l1 by auto
  have isr: "in_region (- X) (Ref (Suc (Suc ?t)))" using Xb by (auto simp: in_region_def)
  have ks: "keys_of g1 (Ref (Suc (Suc ?t))) = keys_of h1 (Ref (Suc (Suc ?t)))"
    using ag1 isr by (rule agree_keys_of)
  obtain g' where g': "extend_into stack True ?t (Ref (Suc (Suc ?t))) (keys_of h1 (Ref (Suc (Suc ?t)))) g1 = Some g'"
    and ag': "agree X h' g'"
    using extend_into_agree[OF ag1 un1 X1 tX isr, of stack True "keys_of h1 (Ref (Suc (Suc ?t)))"] h2
    by auto
  have "default_options stack this hdrs g = Some (d, g')"
    unfolding default_options_unfold[OF default_options_receiver[OF r]] extend_Ref lg go d
    using g1 g' ko ks by simp
  then show ?thesis using ag' by blast
qed

subsection \<open>Header objects that differ in \<open>Accept\<close>\<close>

lemma update_update_same: "AList.update k v (AList.update k w ps) = AList.update k v ps"
  by (induction ps) auto

lemma update_update_present:
  "k \<in> fst ` set ps \<Longrightarrow> k \<noteq> k' \<Longrightarrow>
   AList.update k v (AList.update k' v' ps) = AList.update k' v' (AList.update k v ps)"
  by (induction ps) auto

lemma update_present: "k \<in> fst ` set (AList.update k v ps)"
  by (simp add: AList.dom_update)

lemma update_present_other: "k \<in> fst ` set ps \<Longrightarrow> k \<in> fst ` set (AList.update k' v ps)"
  by (simp add: AList.dom_update)

text \<open>The headers object of the default options after the merge, for two header lists.\<close>

lemma accept_merge:
  fixes base :: "(string \<times> jsval) list"
  defines "pI \<equiv> AList.update ''Content-Type'' (JStr ''text/plain'')
                  (AList.update ''Accept'' (JStr ''application/json'') base)"
  defines "pP \<equiv> AList.update ''Content-Type'' (JStr ''text/plain'')
                  (AList.update ''Accept'' (JStr ''text/plain'') base)"
  shows "pP = AList.update ''Accept'' (JStr ''text/plain'') pI"
    and "lookup pI ''Accept'' = JStr ''application/json''"
    and "AList.update ''headers'' r pP =
         AList.update ''Accept'' (JStr ''text/plain'') (AList.update ''headers'' r pI)"
    and "lookup (AList.update ''headers'' r pI) ''Accept'' = JStr ''application/json''"
proof -
  have a: "''Accept'' \<in> fst ` set (AList.update ''Accept'' (JStr ''application/json'') base)"
    by (rule update_present)
  show 1: "pP = AList.update ''Accept'' (JStr ''text/plain'') pI"
    unfolding pI_def pP_def
    by (simp add: update_update_present[OF a] update_update_same)
  show "lookup pI ''Accept'' = JStr ''application/json''"
    by (simp add: pI_def lookup_def AList.update_conv')
  have "''Accept'' \<in> fst ` set pI" unfolding pI_def using a by (rule update_present_other)
  then have "AList.update ''Accept'' (JStr ''text/plain'') (AList.update ''headers'' r pI) =
         AList.update ''headers'' r (AList.update ''Accept'' (JStr ''text/plain'') pI)"
    by (rule update_update_present) simp
  then show "AList.update ''headers'' r pP =
         AList.update ''Accept'' (JStr ''text/plain'') (AList.update ''headers'' r pI)"
    unfolding 1 by (rule sym)
  show "lookup (AList.update ''headers'' r pI) ''Accept'' = JStr ''application/json''"
    by (simp add: pI_def lookup_def AList.update_conv')
qed

lemma copy_props_two:
  assumes "get_prop h s k1 = JStr v1" "get_prop h s k2 = JStr v2"
  shows "copy_props h s t [k1, k2] base =
         AList.update k2 (JStr v2) (AList.update k1 (JStr v1) base)"
  using assms by (simp add: Let_def)

text \<open>
  The default options of \<^verbatim>\<open>identify\<close> and of \<^verbatim>\<open>identifyPlain\<close>, built from the same store:
  the two resulting stores differ in the \<open>Accept\<close> property of the header objects only.
\<close>

lemma default_options_accept:
  fixes h0 h :: heap
  assumes closed: "heap_closed h0" and pre: "keeps {..<length h0} h0 h" and thi: "in_heap h0 this"
    and st: "0 < stack" and nw: "nests_within stack h0 (get_prop h0 this ''_options'')"
    and refs: "\<forall>a<length h. \<forall>k b. (k, Ref b) \<in> set (props (h ! a)) \<longrightarrow> b < length h"
    and rcv: "this \<noteq> Undefined" "this \<noteq> Null"
  obtains hI hP where
    "default_options stack this
       [(''Accept'', JStr ''application/json''), (''Content-Type'', JStr ''text/plain'')] h =
       Some (Ref (length h), hI)"
    "default_options stack this
       [(''Accept'', JStr ''text/plain''), (''Content-Type'', JStr ''text/plain'')] h =
       Some (Ref (length h), hP)"
    "length hP = length hI"
    "\<forall>a<length hI. hP ! a = hI ! a \<or> accept_differs (hI ! a) (hP ! a)"
proof -
  let ?t = "length h"
  let ?hdI = "[(''Accept'', JStr ''application/json''), (''Content-Type'', JStr ''text/plain'')]"
  let ?hdP = "[(''Accept'', JStr ''text/plain''), (''Content-Type'', JStr ''text/plain'')]"
  let ?E = "\<lparr>kind = PlainObject, props = []\<rparr>"
  let ?HS = "\<lparr>kind = PlainObject, props = [(''headers'', Ref (Suc ?t))]\<rparr>"
  let ?hAI = "h @ [?E, \<lparr>kind = PlainObject, props = ?hdI\<rparr>, ?HS]"
  let ?hAP = "h @ [?E, \<lparr>kind = PlainObject, props = ?hdP\<rparr>, ?HS]"
  let ?opts = "get_prop h0 this ''_options''"
  define X where "X = {Suc ?t, Suc (Suc ?t)}"
  define P where "P = {..<Suc (Suc (Suc ?t))} - {?t}"
  have PI: "{..<length ?hAI} - {?t} = P" and PP: "{..<length ?hAP} - {?t} = P"
    by (auto simp: P_def)
  have primI: "\<forall>(k, v) \<in> set ?hdI. \<exists>s. v = JStr s" and primP: "\<forall>(k, v) \<in> set ?hdP. \<exists>s. v = JStr s"
    by simp_all
  obtain h1I cI h2I where
    eI: "extend_into stack True ?t ?opts (keys_of ?hAI ?opts) ?hAI = Some h1I"
    and kI1: "keeps P ?hAI h1I"
    and cfI: "clone_for h1I (get_prop h1I (Ref ?t) ''headers'') (Ref (Suc ?t)) = (Ref cI, h2I)"
    and cIP: "cI \<notin> P" and cIl: "cI < length h2I" and kI2: "keeps P h1I h2I"
    and resI: "default_options stack this ?hdI h = Some (Ref ?t, set_prop
         (h2I[cI := (h2I ! cI)\<lparr>props := copy_props h2I (Ref (Suc ?t)) cI (map fst ?hdI) (props (h2I ! cI))\<rparr>])
         ?t ''headers'' (Ref cI))"
    using default_options_ok[OF closed pre thi st nw primI rcv, of thesis]
    unfolding PI by blast
  obtain h1P cP h2P where
    eP: "extend_into stack True ?t ?opts (keys_of ?hAP ?opts) ?hAP = Some h1P"
    and kP1: "keeps P ?hAP h1P"
    and cfP: "clone_for h1P (get_prop h1P (Ref ?t) ''headers'') (Ref (Suc ?t)) = (Ref cP, h2P)"
    and cPl: "cP < length h2P" and kP2: "keeps P h1P h2P"
    and resP: "default_options stack this ?hdP h = Some (Ref ?t, set_prop
         (h2P[cP := (h2P ! cP)\<lparr>props := copy_props h2P (Ref (Suc ?t)) cP (map fst ?hdP) (props (h2P ! cP))\<rparr>])
         ?t ''headers'' (Ref cP))"
    using default_options_ok[OF closed pre thi st nw primP rcv, of thesis]
    unfolding PP by blast
  have l0: "length h0 \<le> ?t" using pre by (simp add: keeps_def)
  have agA: "agree X ?hAI ?hAP" by (auto simp: agree_def nth_append X_def)
  have unA: "unreached X ?hAI"
  proof (rule unreached_beyond[where N = "Suc ?t"])
    show "\<forall>a<length ?hAI. a \<notin> X \<longrightarrow> (\<forall>k b. (k, Ref b) \<in> set (props (?hAI ! a)) \<longrightarrow> b < Suc ?t)"
    proof (intro allI impI)
      fix a k b
      assume a: "a < length ?hAI" "a \<notin> X" and m: "(k, Ref b) \<in> set (props (?hAI ! a))"
      show "b < Suc ?t"
      proof (cases "a < ?t")
        case True
        then have "(k, Ref b) \<in> set (props (h ! a))" using m by (simp add: nth_append)
        then have "b < ?t" using refs True by blast
        then show ?thesis by simp
      next
        case False
        then have "a = ?t" using a by (auto simp: X_def)
        then show ?thesis using m by simp
      qed
    qed
  qed (simp add: X_def)
  have XA: "\<forall>a\<in>X. a < length ?hAI" by (simp add: X_def)
  have tX: "?t \<notin> X" by (simp add: X_def)
  have iro: "in_region (- X) ?opts"
    using heap_closed_get_prop[OF closed, of this "''_options''"] l0
    by (auto simp: in_heap_def in_region_def X_def split: jsval.splits)
  have ko: "keys_of ?hAP ?opts = keys_of ?hAI ?opts" using agA iro by (rule agree_keys_of)
  obtain g1 where g1: "extend_into stack True ?t ?opts (keys_of ?hAI ?opts) ?hAP = Some g1"
    and ag1': "agree X h1I g1" and un1: "unreached X h1I" and l1: "length ?hAI \<le> length h1I"
    using extend_into_agree[OF agA unA XA tX iro, of stack True "keys_of ?hAI ?opts"] eI by auto
  have "g1 = h1P" using g1 eP unfolding ko by simp
  then have ag1: "agree X h1I h1P" using ag1' by simp
  have X1: "\<forall>a\<in>X. a < length h1I" using XA l1 by auto
  have irt: "in_region (- X) (Ref ?t)" by (simp add: in_region_def X_def)
  have src: "in_region (- X) (get_prop h1I (Ref ?t) ''headers'')"
    using un1 irt by (rule unreached_get_prop)
  have srcP: "get_prop h1P (Ref ?t) ''headers'' = get_prop h1I (Ref ?t) ''headers''"
    using ag1 irt by (rule agree_get_prop)
  have mem: "Suc ?t \<in> P" "Suc (Suc ?t) \<in> P" by (auto simp: P_def)
  have H1I: "h1I ! Suc ?t = \<lparr>kind = PlainObject, props = ?hdI\<rparr>"
    and H1P: "h1P ! Suc ?t = \<lparr>kind = PlainObject, props = ?hdP\<rparr>"
    using kI1 kP1 mem by (auto simp: keeps_def nth_append)
  have l1P: "length h1P = length h1I" using ag1 by (simp add: agree_def)
  have lt1: "Suc ?t < length h1I" using l1 by simp
  have kd: "kind_of h1P (Ref (Suc ?t)) = kind_of h1I (Ref (Suc ?t))"
    using lt1 l1P H1I H1P by simp
  obtain c h1' g1' where
    c1: "clone_for h1I (get_prop h1I (Ref ?t) ''headers'') (Ref (Suc ?t)) = (Ref c, h1')"
    and c2: "clone_for h1P (get_prop h1I (Ref ?t) ''headers'') (Ref (Suc ?t)) = (Ref c, g1')"
    and cX: "c \<notin> X" and ag2': "agree X h1' g1'"
    by (rule clone_for_agree[OF ag1 un1 X1 src kd])
  have same: "cI = c" "h2I = h1'" "cP = c" "h2P = g1'"
    using c1 c2 cfI cfP unfolding srcP by simp_all
  have ag2: "agree X h2I h2P" using ag2' same by simp
  have cc: "cP = cI" using same by simp
  have cIX: "cI \<notin> X" using cX same by simp
  have l2: "length h2P = length h2I" using ag2 by (simp add: agree_def)
  have kI: "keeps P ?hAI h2I" using kI1 kI2 by (rule keeps_trans)
  have kP: "keeps P ?hAP h2P" using kP1 kP2 by (rule keeps_trans)
  have lt2: "Suc (Suc ?t) < length h2I" using kI by (simp add: keeps_def)
  have H2I: "h2I ! Suc ?t = \<lparr>kind = PlainObject, props = ?hdI\<rparr>"
    and H2P: "h2P ! Suc ?t = \<lparr>kind = PlainObject, props = ?hdP\<rparr>"
    and S2I: "h2I ! Suc (Suc ?t) = ?HS" and S2P: "h2P ! Suc (Suc ?t) = ?HS"
    using kI kP mem by (auto simp: keeps_def nth_append)
  define base where "base = props (h2I ! cI)"
  have bP: "h2P ! cI = h2I ! cI" using ag2 cIX cIl by (simp add: agree_def)
  define pI where "pI = AList.update ''Content-Type'' (JStr ''text/plain'')
                  (AList.update ''Accept'' (JStr ''application/json'') base)"
  define pP where "pP = AList.update ''Content-Type'' (JStr ''text/plain'')
                  (AList.update ''Accept'' (JStr ''text/plain'') base)"
  have lt2': "Suc ?t < length h2I" "Suc ?t < length h2P" using lt2 l2 by simp_all
  have gI: "get_prop h2I (Ref (Suc ?t)) ''Accept'' = JStr ''application/json''"
    "get_prop h2I (Ref (Suc ?t)) ''Content-Type'' = JStr ''text/plain''"
    by (simp_all add: get_prop_nth[OF lt2'(1)] H2I lookup_def)
  have gP: "get_prop h2P (Ref (Suc ?t)) ''Accept'' = JStr ''text/plain''"
    "get_prop h2P (Ref (Suc ?t)) ''Content-Type'' = JStr ''text/plain''"
    by (simp_all add: get_prop_nth[OF lt2'(2)] H2P lookup_def)
  have cpI: "copy_props h2I (Ref (Suc ?t)) cI (map fst ?hdI) (props (h2I ! cI)) = pI"
    unfolding pI_def base_def by (simp add: gI Let_def)
  have cpP: "copy_props h2P (Ref (Suc ?t)) cI (map fst ?hdP) (props (h2I ! cI)) = pP"
    unfolding pP_def base_def by (simp add: gP Let_def)
  define hI where "hI = set_prop (h2I[cI := (h2I ! cI)\<lparr>props := pI\<rparr>]) ?t ''headers'' (Ref cI)"
  define hP where "hP = set_prop (h2P[cI := (h2I ! cI)\<lparr>props := pP\<rparr>]) ?t ''headers'' (Ref cI)"
  have rI: "default_options stack this ?hdI h = Some (Ref ?t, hI)"
    using resI unfolding cpI hI_def .
  have rP: "default_options stack this ?hdP h = Some (Ref ?t, hP)"
    using resP unfolding cc bP cpP hP_def .
  have len: "length hP = length hI" by (simp add: hI_def hP_def l2)
  have cmp: "\<forall>a<length hI. hP ! a = hI ! a \<or> accept_differs (hI ! a) (hP ! a)"
  proof (intro allI impI)
    fix a assume "a < length hI"
    then have al: "a < length h2I" by (simp add: hI_def)
    have tl: "?t < length h2I" using lt2 by simp
    show "hP ! a = hI ! a \<or> accept_differs (hI ! a) (hP ! a)"
    proof (cases "a = cI")
      case True
      show ?thesis
      proof (cases "cI = ?t")
        case T: True
        have "hI ! a = (h2I ! cI)\<lparr>props := AList.update ''headers'' (Ref cI) pI\<rparr>"
          and "hP ! a = (h2I ! cI)\<lparr>props := AList.update ''headers'' (Ref cI) pP\<rparr>"
          using True T cIl l2 by (simp_all add: hI_def hP_def set_prop_def)
        then show ?thesis
          using accept_merge(3,4)[of "Ref cI" base]
          by (simp add: accept_differs_def pI_def pP_def)
      next
        case F: False
        have "hI ! a = (h2I ! cI)\<lparr>props := pI\<rparr>" and "hP ! a = (h2I ! cI)\<lparr>props := pP\<rparr>"
          using True F cIl l2 by (simp_all add: hI_def hP_def set_prop_def)
        then show ?thesis
          using accept_merge(1,2)[of base]
          by (simp add: accept_differs_def pI_def pP_def)
      qed
    next
      case False
      then have eI': "hI ! a = set_prop h2I ?t ''headers'' (Ref cI) ! a"
        and eP': "hP ! a = set_prop h2P ?t ''headers'' (Ref cI) ! a"
        using tl l2 by (cases "a = ?t"; simp add: hI_def hP_def set_prop_def)+
      show ?thesis
      proof (cases "a \<in> X")
        case True
        then have "a = Suc ?t \<or> a = Suc (Suc ?t)" by (simp add: X_def)
        then show ?thesis
        proof
          assume "a = Suc ?t"
          then have "hI ! a = \<lparr>kind = PlainObject, props = ?hdI\<rparr>"
            and "hP ! a = \<lparr>kind = PlainObject, props = ?hdP\<rparr>"
            using eI' eP' H2I H2P by (simp_all add: set_prop_other)
          then show ?thesis by (simp add: accept_differs_def lookup_def)
        next
          assume "a = Suc (Suc ?t)"
          then have "hI ! a = ?HS" and "hP ! a = ?HS"
            using eI' eP' S2I S2P by (simp_all add: set_prop_other)
          then show ?thesis by simp
        qed
      next
        case F: False
        then have "h2P ! a = h2I ! a" using ag2 al by (simp add: agree_def)
        then have "hP ! a = hI ! a"
          using al l2 unfolding eI' eP' by (cases "a = ?t") (simp_all add: set_prop_def)
        then show ?thesis ..
      qed
    qed
  qed
  show ?thesis using that[OF rI rP len cmp] .
qed

section \<open>The sample store\<close>

lemma sample_store_length: "length sample_store = 10"
  by (simp add: sample_store_def)

lemma sample_well_formed:
  "well_formed_call 2 (Ref 0) (Ref 3) (Ref 5) sample_store"
  "well_formed_call 2 (Ref 0) (Ref 6) (Ref 5) sample_store"
  "well_formed_call 2 (Ref 0) (Ref 7) (Ref 5) sample_store"
  "well_formed_call 2 (Ref 0) (Ref 7) Undefined sample_store"
  "well_formed_call 2 (Ref 0) (Ref 9) (Ref 5) sample_store"
  by code_simp+

lemma sample_present:
  "present sample_store (Ref 3) ''text''"
  "present sample_store (Ref 6) ''model_id''"
  "present sample_store (Ref 7) ''base_model_id''"
  "present sample_store (Ref 9) ''text''"
  by code_simp+

lemma sample_fields:
  "get_prop sample_store (Ref 3) ''text'' = Ref 4"
  "get_prop sample_store (Ref 3) ''model_id'' = Undefined"
  "get_prop sample_store (Ref 3) ''source'' = Undefined"
  "get_prop sample_store (Ref 3) ''target'' = Undefined"
  "get_prop sample_store (Ref 6) ''model_id'' = JStr ''en-es''"
  "get_prop sample_store (Ref 7) ''base_model_id'' = JStr ''en-es''"
  "get_prop sample_store (Ref 7) ''name'' = Undefined"
  "get_prop sample_store (Ref 7) ''forced_glossary'' = Ref 8"
  "get_prop sample_store (Ref 7) ''parallel_corpus'' = Undefined"
  "get_prop sample_store (Ref 7) ''monolingual_corpus'' = Undefined"
  "get_prop sample_store (Ref 7) ''source'' = Undefined"
  "get_prop sample_store (Ref 7) ''target'' = Undefined"
  "get_prop sample_store (Ref 7) ''default_models'' = Undefined"
  "get_prop sample_store (Ref 9) ''text'' = JStr ''hola''"
  by code_simp+

lemma sample_translate:
  "invoke Translate 2 (Ref 0) (Ref 3) (Ref 5) sample_store =
     Some (Call_createRequest [Ref 17, Ref 5],
       sample_store @
       [\<lparr>kind = PlainObject, props = [(''text'', Ref 4)]\<rparr>,
        \<lparr>kind = PlainObject, props =
           [(''text'', Ref 4), (''model_id'', Undefined), (''source'', Undefined),
            (''target'', Undefined)]\<rparr>,
        \<lparr>kind = PlainObject, props =
           [(''url'', JStr ''/v2/translate''), (''method'', JStr ''POST''),
            (''json'', JBool True), (''body'', Ref 11)]\<rparr>,
        \<lparr>kind = PlainObject, props = [(''url'', JStr ''https://gateway''), (''headers'', Ref 16)]\<rparr>,
        \<lparr>kind = PlainObject, props =
           [(''Accept'', JStr ''application/json''), (''Content-Type'', JStr ''application/json'')]\<rparr>,
        \<lparr>kind = PlainObject, props = [(''headers'', Ref 14)]\<rparr>,
        \<lparr>kind = PlainObject, props =
           [(''X-Watson-Learning-Opt-Out'', JBool True), (''Accept'', JStr ''application/json''),
            (''Content-Type'', JStr ''application/json'')]\<rparr>,
        \<lparr>kind = PlainObject, props = [(''options'', Ref 12), (''defaultOptions'', Ref 13)]\<rparr>])"
  by code_simp

lemma sample_models:
  "well_formed_call 2 (Ref 0) (Ref 10) (Ref 5) sample_store_models"
  "present sample_store_models (Ref 10) ''base_model_id''"
  "typeof_function sample_store_models (Ref 10) = False"
  "get_prop sample_store_models (Ref 10) ''source'' = JStr ''en''"
  "get_prop sample_store_models (Ref 10) ''target'' = JStr ''es''"
  "get_prop sample_store_models (Ref 10) ''default_models'' = JBool True"
  "get_prop sample_store_models (Ref 10) ''base_model_id'' = JStr ''en-es''"
  "get_prop sample_store_models (Ref 10) ''name'' = JStr ''custom''"
  by code_simp+
section \<open>The claims\<close>

text \<open>
  C9. No endpoint method writes to an object that existed when it was called. Whatever
  the method, the receiver, the arguments and the store: when the method reaches the
  call it ends in, the store has only grown and every object that was there before, the
  caller's params object and the options of the instance among them, is what it was. The
  parameters handed to \<^verbatim>\<open>createRequest\<close> and their default options are new objects, and
  the default options refer to no plain object and to no array of the old store: these
  were cloned, not shared. (What \<^verbatim>\<open>createRequest\<close> and the callback do afterwards is
  not part of the class.)
\<close>

theorem methods_leave_inputs_unchanged:
  assumes "invoke m stack this params callback h = Some (tc, h')"
  shows "length h \<le> length h' \<and> (\<forall>a<length h. h' ! a = h ! a) \<and>
         (\<forall>p cb. tc = Call_createRequest [p, cb] \<longrightarrow>
            (\<exists>a d. p = Ref a \<and> length h \<le> d \<and> d < a \<and> a < length h' \<and>
               get_prop h' p ''defaultOptions'' = Ref d \<and>
               (\<forall>k b. (k, Ref b) \<in> set (props (h' ! d)) \<longrightarrow> b < length h \<longrightarrow>
                  \<not> cloneable h' (Ref b))))"
proof -
  have "keeps {..<length h} h h'" using assms by (rule invoke_frame)
  then have "length h \<le> length h'" and "\<forall>a<length h. h' ! a = h ! a"
    by (auto simp: keeps_def)
  moreover have "\<forall>p cb. tc = Call_createRequest [p, cb] \<longrightarrow>
            (\<exists>a d. p = Ref a \<and> length h \<le> d \<and> d < a \<and> a < length h' \<and>
               get_prop h' p ''defaultOptions'' = Ref d \<and>
               (\<forall>k b. (k, Ref b) \<in> set (props (h' ! d)) \<longrightarrow> b < length h \<longrightarrow>
                  \<not> cloneable h' (Ref b)))"
    using assms invoke_fresh by blast
  ultimately show ?thesis by blast
qed

theorem methods_leave_inputs_unchanged_witness:
  "(\<exists>tc h'. invoke Translate 2 (Ref 0) (Ref 3) (Ref 5) sample_store = Some (tc, h') \<and>
      length sample_store \<le> length h' \<and> h' ! 3 = sample_store ! 3 \<and> h' ! 1 = sample_store ! 1 \<and>
      h' ! 2 = sample_store ! 2)"
proof -
  obtain tc h' where e: "invoke Translate 2 (Ref 0) (Ref 3) (Ref 5) sample_store = Some (tc, h')"
    using sample_translate by blast
  note r = methods_leave_inputs_unchanged[OF e]
  have "length sample_store \<le> length h'" using r by blast
  moreover have "\<forall>a<10. h' ! a = sample_store ! a" using r by (simp add: sample_store_length)
  then have "h' ! 3 = sample_store ! 3" "h' ! 1 = sample_store ! 1" "h' ! 2 = sample_store ! 2"
    by simp_all
  ultimately show ?thesis using e by blast
qed

text \<open>
  C3. For every well-formed call of \<^verbatim>\<open>translate\<close> whose params object has \<open>text\<close> present,
  the method ends in \<^verbatim>\<open>createRequest(parameters, _callback)\<close> where \<open>parameters.options\<close> has
  exactly the properties \<open>url = '/v2/translate'\<close>, \<open>method = 'POST'\<close>, \<open>json = true\<close> and
  \<open>body\<close>; the body is a plain object with exactly the properties \<open>text\<close>, \<open>model_id\<close>,
  \<open>source\<close> and \<open>target\<close>, each holding what reading that field of the caller's params
  gives (\<^verbatim>\<open>undefined\<close> for an absent field); and the headers of
  \<open>parameters.defaultOptions\<close> have \<open>Accept\<close> and \<open>Content-Type\<close> equal to
  \<open>'application/json'\<close>.
\<close>

theorem translate_request:
  assumes "well_formed_call stack this params callback h"
    and "present h params ''text''"
  shows "\<exists>p cb h'. translate stack this params callback h = Some (Call_createRequest [p, cb], h') \<and>
    props_of h' (path_get h' p [''options'']) =
      [(''url'', JStr ''/v2/translate''), (''method'', JStr ''POST''), (''json'', JBool True),
       (''body'', path_get h' p [''options'', ''body''])] \<and>
    isPlainObject h' (path_get h' p [''options'', ''body'']) \<and>
    props_of h' (path_get h' p [''options'', ''body'']) =
      [(''text'', get_prop h params ''text''), (''model_id'', get_prop h params ''model_id''),
       (''source'', get_prop h params ''source''), (''target'', get_prop h params ''target'')] \<and>
    path_get h' p [''defaultOptions'', ''headers'', ''Accept''] = JStr ''application/json'' \<and>
    path_get h' p [''defaultOptions'', ''headers'', ''Content-Type''] = JStr ''application/json''"
proof -
  let ?n = "first_literal h callback"
  let ?L = "translate_literals (get_prop h params) ?n"
  obtain h' c where
    e: "translate stack this params callback h =
       Some (Call_createRequest
               [Ref (length h' - 1), if truthy callback then callback else Ref (Suc (length h))], h')"
    and a: "?n + length ?L + 3 < length h'"
    and b: "\<forall>i<length ?L. h' ! (?n + i) = ?L ! i"
    and l: "h' ! (length h' - 1) = \<lparr>kind = PlainObject, props =
        [(''options'', Ref (?n + length ?L - 1)), (''defaultOptions'', Ref (?n + length ?L))]\<rparr>"
    and g: "get_prop h' (Ref (?n + length ?L)) ''headers'' = Ref c"
    and hv: "\<forall>(k, v) \<in> set [(''Accept'', JStr ''application/json''),
                (''Content-Type'', JStr ''application/json'')]. get_prop h' (Ref c) k = v"
    unfolding translate_endpoint
    by (rule required_view[OF assms, where literals = translate_literals and hdrs =
          "[(''Accept'', JStr ''application/json''), (''Content-Type'', JStr ''application/json'')]"])
       auto
  have len: "length ?L = 2" by (simp add: translate_literals_def)
  have b0: "h' ! ?n = ?L ! 0" and b1: "h' ! Suc ?n = ?L ! 1"
    using b[rule_format, of 0] b[rule_format, of 1] by (simp_all add: len)
  have lt: "length h' - 1 < length h'" "Suc ?n < length h'" "?n < length h'"
    using a by (simp_all add: len)
  define p where "p = Ref (length h' - 1)"
  define cb where "cb = (if truthy callback then callback else Ref (Suc (length h)))"
  have o: "get_prop h' p ''options'' = Ref (Suc ?n)"
    using lt(1) l unfolding p_def by (simp add: get_prop_nth lookup_def len)
  define t where "t = ?n + length ?L"
  have d: "get_prop h' p ''defaultOptions'' = Ref t"
    using lt(1) l unfolding p_def t_def by (simp add: get_prop_nth lookup_def)
  have bd: "get_prop h' (Ref (Suc ?n)) ''body'' = Ref ?n"
    using lt(2) b1 by (simp add: get_prop_nth lookup_def translate_literals_def)
  have g': "get_prop h' (Ref t) ''headers'' = Ref c" using g by (simp add: t_def)
  have e': "translate stack this params callback h = Some (Call_createRequest [p, cb], h')"
    using e by (simp add: p_def cb_def)
  show ?thesis
    apply (intro exI conjI)
         apply (rule e')
    using lt b0 b1 hv
    by (simp_all add: o d bd g' props_of_nth isPlainObject_nth translate_literals_def
        del: props_of.simps)
qed

theorem translate_request_witness:
  "well_formed_call 2 (Ref 0) (Ref 3) (Ref 5) sample_store \<and>
   present sample_store (Ref 3) ''text'' \<and>
   (\<exists>p cb h'. translate 2 (Ref 0) (Ref 3) (Ref 5) sample_store =
        Some (Call_createRequest [p, cb], h') \<and>
      props_of h' (path_get h' p [''options'', ''body'']) =
        [(''text'', Ref 4), (''model_id'', Undefined), (''source'', Undefined),
         (''target'', Undefined)] \<and>
      path_get h' p [''defaultOptions'', ''headers'', ''Accept''] = JStr ''application/json'' \<and>
      path_get h' p [''defaultOptions'', ''headers'', ''Content-Type''] = JStr ''application/json'')"
  using translate_request[OF sample_well_formed(1) sample_present(1)]
    sample_well_formed(1) sample_present(1)
  unfolding sample_fields by blast

text \<open>
  C4. For every well-formed call, \<^verbatim>\<open>listModels\<close> ends in a request with method \<open>'GET'\<close> and
  url \<open>'/v2/models'\<close> whose query object \<open>options.qs\<close> has exactly the properties \<open>source\<close>,
  \<open>target\<close> and \<open>default\<close>, holding the fields \<open>source\<close>, \<open>target\<close> and \<open>default_models\<close>
  of the caller's params (all \<^verbatim>\<open>undefined\<close> when the callback was passed in the place of
  params). When \<open>base_model_id\<close> is present, \<^verbatim>\<open>createModel\<close> ends in a request with method
  \<open>'POST'\<close> and url \<open>'/v2/models'\<close> whose query object has exactly the properties
  \<open>base_model_id\<close> and \<open>name\<close>, holding the fields of these names.
\<close>

theorem query_string_fields:
  assumes "well_formed_call stack this params callback h"
  shows "(\<exists>p cb h'. listModels stack this params callback h = Some (Call_createRequest [p, cb], h') \<and>
      path_get h' p [''options'', ''method''] = JStr ''GET'' \<and>
      path_get h' p [''options'', ''url''] = JStr ''/v2/models'' \<and>
      isPlainObject h' (path_get h' p [''options'', ''qs'']) \<and>
      props_of h' (path_get h' p [''options'', ''qs'']) =
        (if typeof_function h params \<and> \<not> truthy callback
         then [(''source'', Undefined), (''target'', Undefined), (''default'', Undefined)]
         else [(''source'', get_prop h params ''source''), (''target'', get_prop h params ''target''),
               (''default'', get_prop h params ''default_models'')])) \<and>
    (present h params ''base_model_id'' \<longrightarrow>
     (\<exists>p cb h'. createModel stack this params callback h = Some (Call_createRequest [p, cb], h') \<and>
      path_get h' p [''options'', ''method''] = JStr ''POST'' \<and>
      path_get h' p [''options'', ''url''] = JStr ''/v2/models'' \<and>
      isPlainObject h' (path_get h' p [''options'', ''qs'']) \<and>
      props_of h' (path_get h' p [''options'', ''qs'']) =
        [(''base_model_id'', get_prop h params ''base_model_id''),
         (''name'', get_prop h params ''name'')]))"
proof (intro conjI impI)
  let ?n = "length (before_check True h params callback)"
  let ?rd = "\<lambda>k. if typeof_function h params \<and> \<not> truthy callback then Undefined
                 else get_prop h params k"
  let ?L = "listModels_literals ?rd ?n"
  obtain h' c where
    e: "listModels stack this params callback h =
       Some (Call_createRequest [Ref (length h' - 1), effective_callback True h params callback], h')"
    and a: "?n + length ?L + 3 < length h'"
    and b: "\<forall>i<length ?L. h' ! (?n + i) = ?L ! i"
    and l: "h' ! (length h' - 1) = \<lparr>kind = PlainObject, props =
        [(''options'', Ref (?n + length ?L - 1)), (''defaultOptions'', Ref (?n + length ?L))]\<rparr>"
    unfolding listModels_endpoint
    by (rule optional_view[OF assms, where literals = listModels_literals and hdrs =
          "[(''Accept'', JStr ''application/json'')]"]) auto
  have len: "length ?L = 2" by (simp add: listModels_literals_def)
  have b0: "h' ! ?n = ?L ! 0" and b1: "h' ! Suc ?n = ?L ! 1"
    using b[rule_format, of 0] b[rule_format, of 1] by (simp_all add: len)
  have lt: "length h' - 1 < length h'" "Suc ?n < length h'" "?n < length h'"
    using a by (simp_all add: len)
  define p where "p = Ref (length h' - 1)"
  have o: "get_prop h' p ''options'' = Ref (Suc ?n)"
    using lt(1) l unfolding p_def by (simp add: get_prop_nth lookup_def len)
  have q: "get_prop h' (Ref (Suc ?n)) ''qs'' = Ref ?n"
    using lt(2) b1 by (simp add: get_prop_nth lookup_def listModels_literals_def)
  have e': "listModels stack this params callback h =
       Some (Call_createRequest [p, effective_callback True h params callback], h')"
    using e by (simp add: p_def)
  show "\<exists>p cb h'. listModels stack this params callback h = Some (Call_createRequest [p, cb], h') \<and>
      path_get h' p [''options'', ''method''] = JStr ''GET'' \<and>
      path_get h' p [''options'', ''url''] = JStr ''/v2/models'' \<and>
      isPlainObject h' (path_get h' p [''options'', ''qs'']) \<and>
      props_of h' (path_get h' p [''options'', ''qs'']) =
        (if typeof_function h params \<and> \<not> truthy callback
         then [(''source'', Undefined), (''target'', Undefined), (''default'', Undefined)]
         else [(''source'', get_prop h params ''source''), (''target'', get_prop h params ''target''),
               (''default'', get_prop h params ''default_models'')])"
    apply (intro exI conjI)
        apply (rule e')
    using lt b0 b1
    by (simp_all add: o q get_prop_nth lookup_def props_of_nth isPlainObject_nth
        listModels_literals_def del: props_of.simps)
next
  assume pres: "present h params ''base_model_id''"
  let ?n = "first_literal h callback"
  let ?L = "createModel_literals (get_prop h params) ?n"
  obtain h' c where
    e: "createModel stack this params callback h =
       Some (Call_createRequest
               [Ref (length h' - 1), if truthy callback then callback else Ref (Suc (length h))], h')"
    and a: "?n + length ?L + 3 < length h'"
    and b: "\<forall>i<length ?L. h' ! (?n + i) = ?L ! i"
    and l: "h' ! (length h' - 1) = \<lparr>kind = PlainObject, props =
        [(''options'', Ref (?n + length ?L - 1)), (''defaultOptions'', Ref (?n + length ?L))]\<rparr>"
    unfolding createModel_endpoint
    by (rule required_view[OF assms pres, where literals = createModel_literals and hdrs =
          "[(''Accept'', JStr ''application/json''), (''Content-Type'', JStr ''multipart/form-data'')]"])
       auto
  have len: "length ?L = 6" by (simp add: createModel_literals_def)
  have b4: "h' ! (?n + 4) = ?L ! 4" and b5: "h' ! (?n + 5) = ?L ! 5"
    using b[rule_format, of 4] b[rule_format, of 5] by (simp_all add: len)
  have lt: "length h' - 1 < length h'" "?n + 5 < length h'" "?n + 4 < length h'"
    using a by (simp_all add: len)
  define p where "p = Ref (length h' - 1)"
  define cb where "cb = (if truthy callback then callback else Ref (Suc (length h)))"
  have o: "get_prop h' p ''options'' = Ref (?n + 5)"
    using lt(1) l unfolding p_def by (simp add: get_prop_nth lookup_def len)
  have q: "get_prop h' (Ref (?n + 5)) ''qs'' = Ref (?n + 4)"
    using lt(2) b5 by (simp add: get_prop_nth lookup_def createModel_literals_def eval_nat_numeral)
  have e': "createModel stack this params callback h = Some (Call_createRequest [p, cb], h')"
    using e by (simp add: p_def cb_def)
  show "\<exists>p cb h'. createModel stack this params callback h = Some (Call_createRequest [p, cb], h') \<and>
      path_get h' p [''options'', ''method''] = JStr ''POST'' \<and>
      path_get h' p [''options'', ''url''] = JStr ''/v2/models'' \<and>
      isPlainObject h' (path_get h' p [''options'', ''qs'']) \<and>
      props_of h' (path_get h' p [''options'', ''qs'']) =
        [(''base_model_id'', get_prop h params ''base_model_id''),
         (''name'', get_prop h params ''name'')]"
    apply (intro exI conjI)
        apply (rule e')
    using lt b4 b5
    by (simp_all add: o q get_prop_nth lookup_def props_of_nth isPlainObject_nth
        createModel_literals_def del: props_of.simps)
qed

theorem query_string_fields_witness:
  "well_formed_call 2 (Ref 0) (Ref 10) (Ref 5) sample_store_models \<and>
   present sample_store_models (Ref 10) ''base_model_id'' \<and>
   (\<exists>p cb h'. listModels 2 (Ref 0) (Ref 10) (Ref 5) sample_store_models =
        Some (Call_createRequest [p, cb], h') \<and>
      path_get h' p [''options'', ''method''] = JStr ''GET'' \<and>
      path_get h' p [''options'', ''url''] = JStr ''/v2/models'' \<and>
      isPlainObject h' (path_get h' p [''options'', ''qs'']) \<and>
      props_of h' (path_get h' p [''options'', ''qs'']) =
        [(''source'', JStr ''en''), (''target'', JStr ''es''), (''default'', JBool True)]) \<and>
   (\<exists>p cb h'. createModel 2 (Ref 0) (Ref 10) (Ref 5) sample_store_models =
        Some (Call_createRequest [p, cb], h') \<and>
      path_get h' p [''options'', ''method''] = JStr ''POST'' \<and>
      path_get h' p [''options'', ''url''] = JStr ''/v2/models'' \<and>
      isPlainObject h' (path_get h' p [''options'', ''qs'']) \<and>
      props_of h' (path_get h' p [''options'', ''qs'']) =
        [(''base_model_id'', JStr ''en-es''), (''name'', JStr ''custom'')])"
proof -
  note r = query_string_fields[OF sample_models(1)]
  have l: "\<exists>p cb h'. listModels 2 (Ref 0) (Ref 10) (Ref 5) sample_store_models =
        Some (Call_createRequest [p, cb], h') \<and>
      path_get h' p [''options'', ''method''] = JStr ''GET'' \<and>
      path_get h' p [''options'', ''url''] = JStr ''/v2/models'' \<and>
      isPlainObject h' (path_get h' p [''options'', ''qs'']) \<and>
      props_of h' (path_get h' p [''options'', ''qs'']) =
        [(''source'', JStr ''en''), (''target'', JStr ''es''), (''default'', JBool True)]"
    using r[THEN conjunct1] unfolding sample_models(3-6) by simp
  have c: "\<exists>p cb h'. createModel 2 (Ref 0) (Ref 10) (Ref 5) sample_store_models =
        Some (Call_createRequest [p, cb], h') \<and>
      path_get h' p [''options'', ''method''] = JStr ''POST'' \<and>
      path_get h' p [''options'', ''url''] = JStr ''/v2/models'' \<and>
      isPlainObject h' (path_get h' p [''options'', ''qs'']) \<and>
      props_of h' (path_get h' p [''options'', ''qs'']) =
        [(''base_model_id'', JStr ''en-es''), (''name'', JStr ''custom'')]"
    using r[THEN conjunct2, rule_format, OF sample_models(2)] unfolding sample_models(7,8) .
  show ?thesis using sample_models(1,2) l c by blast
qed
text \<open>
  C6. For every well-formed call of \<^verbatim>\<open>createModel\<close> whose params object has
  \<open>base_model_id\<close> present, \<open>options.formData\<close> of the request is a plain object with
  exactly the three parts \<open>forced_glossary\<close>, \<open>parallel_corpus\<close> and \<open>monolingual_corpus\<close>;
  each part has exactly the properties \<open>data\<close>, holding the params field of the part's
  name (\<^verbatim>\<open>undefined\<close> when it is absent), and \<open>contentType\<close>, which is
  \<open>'application/octet-stream'\<close>, \<open>'application/octet-stream'\<close> and \<open>'text/plain'\<close>; and
  the default \<open>Content-Type\<close> header is \<open>'multipart/form-data'\<close>.
\<close>

theorem createModel_form_data:
  assumes "well_formed_call stack this params callback h"
    and "present h params ''base_model_id''"
  shows "\<exists>p cb h'. createModel stack this params callback h = Some (Call_createRequest [p, cb], h') \<and>
    isPlainObject h' (path_get h' p [''options'', ''formData'']) \<and>
    keys_of h' (path_get h' p [''options'', ''formData'']) =
      [''forced_glossary'', ''parallel_corpus'', ''monolingual_corpus''] \<and>
    props_of h' (path_get h' p [''options'', ''formData'', ''forced_glossary'']) =
      [(''data'', get_prop h params ''forced_glossary''),
       (''contentType'', JStr ''application/octet-stream'')] \<and>
    props_of h' (path_get h' p [''options'', ''formData'', ''parallel_corpus'']) =
      [(''data'', get_prop h params ''parallel_corpus''),
       (''contentType'', JStr ''application/octet-stream'')] \<and>
    props_of h' (path_get h' p [''options'', ''formData'', ''monolingual_corpus'']) =
      [(''data'', get_prop h params ''monolingual_corpus''),
       (''contentType'', JStr ''text/plain'')] \<and>
    path_get h' p [''defaultOptions'', ''headers'', ''Content-Type''] = JStr ''multipart/form-data''"
proof -
  let ?n = "first_literal h callback"
  let ?L = "createModel_literals (get_prop h params) ?n"
  obtain h' c where
    e: "createModel stack this params callback h =
       Some (Call_createRequest
               [Ref (length h' - 1), if truthy callback then callback else Ref (Suc (length h))], h')"
    and a: "?n + length ?L + 3 < length h'"
    and b: "\<forall>i<length ?L. h' ! (?n + i) = ?L ! i"
    and l: "h' ! (length h' - 1) = \<lparr>kind = PlainObject, props =
        [(''options'', Ref (?n + length ?L - 1)), (''defaultOptions'', Ref (?n + length ?L))]\<rparr>"
    and g: "get_prop h' (Ref (?n + length ?L)) ''headers'' = Ref c"
    and hv: "\<forall>(k, v) \<in> set [(''Accept'', JStr ''application/json''),
                (''Content-Type'', JStr ''multipart/form-data'')]. get_prop h' (Ref c) k = v"
    unfolding createModel_endpoint
    by (rule required_view[OF assms, where literals = createModel_literals and hdrs =
          "[(''Accept'', JStr ''application/json''), (''Content-Type'', JStr ''multipart/form-data'')]"])
       auto
  have len: "length ?L = 6" by (simp add: createModel_literals_def)
  define fg where "fg = ?n"
  define pc where "pc = Suc ?n"
  define mc where "mc = Suc (Suc ?n)"
  define fd where "fd = ?n + 3"
  define op where "op = ?n + 5"
  define p where "p = Ref (length h' - 1)"
  define cb where "cb = (if truthy callback then callback else Ref (Suc (length h)))"
  define t where "t = ?n + length ?L"
  have b0: "h' ! fg = \<lparr>kind = PlainObject, props =
         [(''data'', get_prop h params ''forced_glossary''),
          (''contentType'', JStr ''application/octet-stream'')]\<rparr>"
    and b1: "h' ! pc = \<lparr>kind = PlainObject, props =
         [(''data'', get_prop h params ''parallel_corpus''),
          (''contentType'', JStr ''application/octet-stream'')]\<rparr>"
    and b2: "h' ! mc = \<lparr>kind = PlainObject, props =
         [(''data'', get_prop h params ''monolingual_corpus''),
          (''contentType'', JStr ''text/plain'')]\<rparr>"
    and b3: "h' ! fd = \<lparr>kind = PlainObject, props =
         [(''forced_glossary'', Ref fg), (''parallel_corpus'', Ref pc),
          (''monolingual_corpus'', Ref mc)]\<rparr>"
    and b5: "get_prop h' (Ref op) ''formData'' = Ref fd"
    using b[rule_format, of 0] b[rule_format, of 1] b[rule_format, of 2] b[rule_format, of 3]
      b[rule_format, of 5] a
    unfolding fg_def pc_def mc_def fd_def op_def
    by (simp_all add: len createModel_literals_def eval_nat_numeral get_prop_nth lookup_def)
  have lt: "length h' - 1 < length h'" "fd < length h'" "mc < length h'" "pc < length h'"
    "fg < length h'"
    using a unfolding fg_def pc_def mc_def fd_def by (simp_all add: len)
  have o: "get_prop h' p ''options'' = Ref op"
    using lt(1) l unfolding p_def op_def by (simp add: get_prop_nth lookup_def len)
  have d: "get_prop h' p ''defaultOptions'' = Ref t"
    using lt(1) l unfolding p_def t_def by (simp add: get_prop_nth lookup_def)
  have g': "get_prop h' (Ref t) ''headers'' = Ref c" using g by (simp add: t_def)
  have e': "createModel stack this params callback h = Some (Call_createRequest [p, cb], h')"
    using e by (simp add: p_def cb_def)
  show ?thesis
    apply (intro exI conjI)
          apply (rule e')
    using lt hv
    by (simp_all add: o d g' b0 b1 b2 b3 b5 keys_of_def get_prop_nth lookup_def props_of_nth
        isPlainObject_nth del: props_of.simps)
qed

theorem createModel_form_data_witness:
  "well_formed_call 2 (Ref 0) (Ref 7) (Ref 5) sample_store \<and>
   present sample_store (Ref 7) ''base_model_id'' \<and>
   (\<exists>p cb h'. createModel 2 (Ref 0) (Ref 7) (Ref 5) sample_store =
        Some (Call_createRequest [p, cb], h') \<and>
      keys_of h' (path_get h' p [''options'', ''formData'']) =
        [''forced_glossary'', ''parallel_corpus'', ''monolingual_corpus''] \<and>
      props_of h' (path_get h' p [''options'', ''formData'', ''forced_glossary'']) =
        [(''data'', Ref 8), (''contentType'', JStr ''application/octet-stream'')] \<and>
      props_of h' (path_get h' p [''options'', ''formData'', ''monolingual_corpus'']) =
        [(''data'', Undefined), (''contentType'', JStr ''text/plain'')] \<and>
      path_get h' p [''defaultOptions'', ''headers'', ''Content-Type''] = JStr ''multipart/form-data'')"
  using createModel_form_data[OF sample_well_formed(3) sample_present(3)]
    sample_well_formed(3) sample_present(3)
  unfolding sample_fields by blast

lemma invoke_builds:
  assumes wf: "well_formed_call stack this params callback h"
    and pres: "\<forall>r\<in>set (requiredParams m). present h params r"
  obtains h' c where
    "invoke m stack this params callback h =
       Some (Call_createRequest
         [Ref (length h' - 1), effective_callback (callback_first m) h params callback], h')"
    "length (before_options (literals_of m) (callback_first m) h params callback) + 3 < length h'"
    "\<forall>i<length (before_options (literals_of m) (callback_first m) h params callback).
        h' ! i = before_options (literals_of m) (callback_first m) h params callback ! i"
    "h' ! (length h' - 1) = \<lparr>kind = PlainObject, props =
        [(''options'', Ref (length (before_options (literals_of m) (callback_first m) h params callback) - 1)),
         (''defaultOptions'', Ref (length (before_options (literals_of m) (callback_first m) h params callback)))]\<rparr>"
proof -
  have closed: "heap_closed h" using wf by (simp add: well_formed_call_def)
  have nm: "missing_params (requiredParams m) (params_props (callback_first m) h params callback) = []"
    using pres by (simp add: missing_params_present[OF closed])
  obtain h' c where
    "endpoint (requiredParams m) (literals_of m) (headers_of m) (callback_first m)
        stack this params callback h =
       Some (Call_createRequest
         [Ref (length h' - 1), effective_callback (callback_first m) h params callback], h')"
    "length (before_options (literals_of m) (callback_first m) h params callback) + 3 < length h'"
    "\<forall>i<length (before_options (literals_of m) (callback_first m) h params callback).
        h' ! i = before_options (literals_of m) (callback_first m) h params callback ! i"
    "h' ! (length h' - 1) = \<lparr>kind = PlainObject, props =
        [(''options'', Ref (length (before_options (literals_of m) (callback_first m) h params callback) - 1)),
         (''defaultOptions'', Ref (length (before_options (literals_of m) (callback_first m) h params callback)))]\<rparr>"
    by (rule endpoint_view[OF wf nm headers_of_ok(1)[of m] headers_of_ok(2)[of m]
          headers_of_ok(3)[of m], where literals = "literals_of m"])
  then show ?thesis using that[of h'] unfolding invoke_is_endpoint by blast
qed

text \<open>
  C1. Validation is a presence check and nothing else. For every method and every
  well-formed call: if every name in the method's \<^verbatim>\<open>requiredParams\<close> is present in the
  params object, whatever the values of its fields, the method ends in
  \<^verbatim>\<open>createRequest\<close>; if some required name is absent, it ends in a call of the callback
  with one argument, the error that names the absent ones, and no request is built. In
  particular \<^verbatim>\<open>translate\<close> with \<open>text\<close> present builds its request when \<open>model_id\<close> is
  absent and \<open>source\<close> and \<open>target\<close> are not both present.
\<close>

theorem validation_is_presence_only:
  assumes "well_formed_call stack this params callback h"
  shows "((\<forall>r\<in>set (requiredParams m). present h params r) \<longrightarrow>
            (\<exists>p cb h'. invoke m stack this params callback h =
                 Some (Call_createRequest [p, cb], h'))) \<and>
         (\<not> (\<forall>r\<in>set (requiredParams m). present h params r) \<longrightarrow>
            (\<exists>cb e h'. invoke m stack this params callback h = Some (Call_callback cb [e], h') \<and>
               (truthy callback \<longrightarrow> cb = callback) \<and>
               kind_of h' e =
                 Some (MissingParamsError (filter (\<lambda>r. \<not> present h params r) (requiredParams m))))) \<and>
         (present h params ''text'' \<and> \<not> present h params ''model_id'' \<and>
          \<not> (present h params ''source'' \<and> present h params ''target'') \<longrightarrow>
            (\<exists>p cb h'. translate stack this params callback h =
                 Some (Call_createRequest [p, cb], h')))"
proof (intro conjI impI)
  assume "\<forall>r\<in>set (requiredParams m). present h params r"
  then show "\<exists>p cb h'. invoke m stack this params callback h = Some (Call_createRequest [p, cb], h')"
    using invoke_builds[OF assms, of m] by metis
next
  assume a: "\<not> (\<forall>r\<in>set (requiredParams m). present h params r)"
  have closed: "heap_closed h" using assms by (simp add: well_formed_call_def)
  have nf: "\<not> callback_first m" using a required_not_first by fastforce
  let ?h1 = "before_check (callback_first m) h params callback"
  let ?ms = "filter (\<lambda>r. \<not> present h params r) (requiredParams m)"
  have e: "invoke m stack this params callback h =
     Some (Call_callback (effective_callback (callback_first m) h params callback) [Ref (length ?h1)],
           ?h1 @ [\<lparr>kind = MissingParamsError ?ms, props = []\<rparr>])"
    unfolding invoke_is_endpoint
    using endpoint_missing[OF missing_params_absent[OF a]]
    by (simp add: missing_params_present[OF closed])
  have c: "truthy callback \<longrightarrow> effective_callback (callback_first m) h params callback = callback"
    using nf by (simp add: effective_callback_def fn_first_def)
  have k: "kind_of (?h1 @ [\<lparr>kind = MissingParamsError ?ms, props = []\<rparr>]) (Ref (length ?h1)) =
             Some (MissingParamsError ?ms)"
    by simp
  show "\<exists>cb e h'. invoke m stack this params callback h = Some (Call_callback cb [e], h') \<and>
               (truthy callback \<longrightarrow> cb = callback) \<and>
               kind_of h' e = Some (MissingParamsError ?ms)"
    using e c k by blast
next
  assume "present h params ''text'' \<and> \<not> present h params ''model_id'' \<and>
          \<not> (present h params ''source'' \<and> present h params ''target'')"
  then have "\<forall>r\<in>set (requiredParams Translate). present h params r" by simp
  then show "\<exists>p cb h'. translate stack this params callback h = Some (Call_createRequest [p, cb], h')"
    using invoke_builds[OF assms, of Translate] by (metis invoke.simps(1))
qed

theorem validation_is_presence_only_witness:
  "well_formed_call 2 (Ref 0) (Ref 3) (Ref 5) sample_store \<and>
   present sample_store (Ref 3) ''text'' \<and> \<not> present sample_store (Ref 3) ''model_id'' \<and>
   \<not> present sample_store (Ref 3) ''source'' \<and> \<not> present sample_store (Ref 3) ''base_model_id'' \<and>
   (\<exists>p cb h'. translate 2 (Ref 0) (Ref 3) (Ref 5) sample_store =
        Some (Call_createRequest [p, cb], h')) \<and>
   (\<exists>cb e h'. invoke CreateModel 2 (Ref 0) (Ref 3) (Ref 5) sample_store =
        Some (Call_callback cb [e], h') \<and> cb = Ref 5 \<and>
        kind_of h' e = Some (MissingParamsError [''base_model_id'']))"
proof -
  have p: "present sample_store (Ref 3) ''text''" "\<not> present sample_store (Ref 3) ''model_id''"
    "\<not> present sample_store (Ref 3) ''source''" "\<not> present sample_store (Ref 3) ''base_model_id''"
    by code_simp+
  have t: "truthy (Ref 5)" by simp
  note w = sample_well_formed(1)
  have "\<exists>p cb h'. translate 2 (Ref 0) (Ref 3) (Ref 5) sample_store =
        Some (Call_createRequest [p, cb], h')"
    using validation_is_presence_only[OF w, of Translate] p by blast
  moreover have "\<exists>cb e h'. invoke CreateModel 2 (Ref 0) (Ref 3) (Ref 5) sample_store =
        Some (Call_callback cb [e], h') \<and> cb = Ref 5 \<and>
        kind_of h' e = Some (MissingParamsError [''base_model_id''])"
    using validation_is_presence_only[OF w, of CreateModel] p t by simp
  ultimately show ?thesis using w p by blast
qed

lemma literals_of_plain:
  "literals_of m rd n \<noteq> []" "kind (last (literals_of m rd n)) = PlainObject"
  by (cases m; simp add: translate_literals_def identify_literals_def
        listIdentifiableLanguages_literals_def createModel_literals_def model_literals_def
        listModels_literals_def)+

lemma invoke_callback:
  assumes "invoke m stack this params callback h = Some (tc, h')"
  shows "(\<exists>e. tc = Call_callback (effective_callback (callback_first m) h params callback) [e]) \<or>
         (\<exists>p. tc = Call_createRequest [p, effective_callback (callback_first m) h params callback])"
    and "\<not> (callback_first m \<and> typeof_function h params) \<Longrightarrow> \<not> truthy callback \<Longrightarrow>
         kind_of h' (effective_callback (callback_first m) h params callback) = Some (Function Noop)"
  using endpoint_callback[OF assms[unfolded invoke_is_endpoint]]
  by (simp_all add: fn_first_def)

text \<open>
  C2. Every method, once its required parameters are found present (the two methods
  without required parameters: always), ends in \<^verbatim>\<open>return createRequest(parameters, _callback)\<close>
  on a well-formed call: \<open>parameters\<close> is a plain object with exactly the properties
  \<open>options\<close> and \<open>defaultOptions\<close>, \<open>options\<close> being the plain object the method
  assembled; the callback passed on is the caller's callback when one was given, the
  function given in the place of params for the two methods that allow it, and otherwise
  a new function that does nothing. No method ends in anything but a call of the callback
  with one argument or a call of \<^verbatim>\<open>createRequest\<close> with these two arguments.
\<close>

theorem methods_delegate_to_createRequest:
  "(well_formed_call stack this params callback h \<and>
    (\<forall>r\<in>set (requiredParams m). present h params r) \<longrightarrow>
     (\<exists>p cb h'. invoke m stack this params callback h = Some (Call_createRequest [p, cb], h') \<and>
        isPlainObject h' p \<and> keys_of h' p = [''options'', ''defaultOptions''] \<and>
        isPlainObject h' (get_prop h' p ''options'') \<and>
        (truthy callback \<longrightarrow> cb = callback) \<and>
        (\<not> truthy callback \<and> callback_first m \<and> typeof_function h params \<longrightarrow> cb = params) \<and>
        (\<not> truthy callback \<and> \<not> (callback_first m \<and> typeof_function h params) \<longrightarrow>
           kind_of h' cb = Some (Function Noop)))) \<and>
   (\<forall>tc h'. invoke m stack this params callback h = Some (tc, h') \<longrightarrow>
        (\<exists>cb e. tc = Call_callback cb [e]) \<or> (\<exists>p cb. tc = Call_createRequest [p, cb]))"
proof (intro conjI impI allI)
  assume a: "well_formed_call stack this params callback h \<and>
    (\<forall>r\<in>set (requiredParams m). present h params r)"
  let ?h2 = "before_options (literals_of m) (callback_first m) h params callback"
  let ?cb = "effective_callback (callback_first m) h params callback"
  obtain h' where e: "invoke m stack this params callback h =
       Some (Call_createRequest [Ref (length h' - 1), ?cb], h')"
    and l2: "length ?h2 + 3 < length h'"
    and b: "\<forall>i<length ?h2. h' ! i = ?h2 ! i"
    and l: "h' ! (length h' - 1) = \<lparr>kind = PlainObject, props =
        [(''options'', Ref (length ?h2 - 1)), (''defaultOptions'', Ref (length ?h2))]\<rparr>"
    using invoke_builds[of stack this params callback h m] a by blast
  define p where "p = Ref (length h' - 1)"
  have lt: "length h' - 1 < length h'" using l2 by simp
  have p1: "isPlainObject h' p" "keys_of h' p = [''options'', ''defaultOptions'']"
    and o: "get_prop h' p ''options'' = Ref (length ?h2 - 1)"
    using lt l unfolding p_def by (simp_all add: isPlainObject_nth keys_of_def get_prop_nth lookup_def)
  let ?L = "literals_of m (lookup (params_props (callback_first m) h params callback))
              (length (before_check (callback_first m) h params callback))"
  have ne: "?L \<noteq> []" and kl: "kind (last ?L) = PlainObject" by (rule literals_of_plain)+
  have h2: "?h2 = before_check (callback_first m) h params callback @ ?L"
    by (simp add: before_options_def)
  have "last ?h2 = last ?L" using ne unfolding h2 by simp
  moreover have "?h2 \<noteq> []" unfolding h2 using ne by simp
  ultimately have "?h2 ! (length ?h2 - 1) = last ?L" by (simp add: last_conv_nth)
  moreover have lo: "length ?h2 - 1 < length ?h2" using ne unfolding h2 by simp
  ultimately have "kind (h' ! (length ?h2 - 1)) = PlainObject" using b kl by simp
  then have p2: "isPlainObject h' (get_prop h' p ''options'')"
    using lo l2 by (simp add: o isPlainObject_nth)
  have c1: "truthy callback \<longrightarrow> ?cb = callback"
    and c2: "\<not> truthy callback \<and> callback_first m \<and> typeof_function h params \<longrightarrow> ?cb = params"
    by (simp_all add: effective_callback_def fn_first_def)
  have c3: "\<not> truthy callback \<and> \<not> (callback_first m \<and> typeof_function h params) \<longrightarrow>
           kind_of h' ?cb = Some (Function Noop)"
    using invoke_callback(2)[OF e] by blast
  have e': "invoke m stack this params callback h = Some (Call_createRequest [p, ?cb], h')"
    using e by (simp add: p_def)
  show "\<exists>p cb h'. invoke m stack this params callback h = Some (Call_createRequest [p, cb], h') \<and>
        isPlainObject h' p \<and> keys_of h' p = [''options'', ''defaultOptions''] \<and>
        isPlainObject h' (get_prop h' p ''options'') \<and>
        (truthy callback \<longrightarrow> cb = callback) \<and>
        (\<not> truthy callback \<and> callback_first m \<and> typeof_function h params \<longrightarrow> cb = params) \<and>
        (\<not> truthy callback \<and> \<not> (callback_first m \<and> typeof_function h params) \<longrightarrow>
           kind_of h' cb = Some (Function Noop))"
    using e' p1 p2 c1 c2 c3 by blast
next
  fix tc h'
  assume "invoke m stack this params callback h = Some (tc, h')"
  then show "(\<exists>cb e. tc = Call_callback cb [e]) \<or> (\<exists>p cb. tc = Call_createRequest [p, cb])"
    using invoke_callback(1) by blast
qed

theorem methods_delegate_to_createRequest_witness:
  "well_formed_call 2 (Ref 0) (Ref 6) (Ref 5) sample_store \<and>
   present sample_store (Ref 6) ''model_id'' \<and>
   (\<exists>p h'. invoke GetModel 2 (Ref 0) (Ref 6) (Ref 5) sample_store =
      Some (Call_createRequest [p, Ref 5], h') \<and>
      isPlainObject h' p \<and> keys_of h' p = [''options'', ''defaultOptions''] \<and>
      isPlainObject h' (get_prop h' p ''options''))"
proof -
  note w = sample_well_formed(2) and p = sample_present(2)
  have t: "truthy (Ref 5)" by simp
  have r: "\<forall>r\<in>set (requiredParams GetModel). present sample_store (Ref 6) r" using p by simp
  show ?thesis
    using methods_delegate_to_createRequest[of 2 "Ref 0" "Ref 6" "Ref 5" sample_store GetModel]
      w p r t by blast
qed

text \<open>
  C10, as the spec states it, fails for the two methods that accept the callback as their
  only argument. In \<^verbatim>\<open>listModels(f)\<close> and \<^verbatim>\<open>listIdentifiableLanguages(f)\<close> with \<open>f\<close> a function
  the callback argument is omitted, and the method does not substitute a function that
  does nothing: it hands the caller's \<open>f\<close> (address 5 of the sample store, a function from
  outside the class) to \<^verbatim>\<open>createRequest\<close>.
\<close>

theorem omitted_callback_counterexample:
  "well_formed_call 2 (Ref 0) (Ref 5) Undefined sample_store \<and>
   typeof_function sample_store (Ref 5) \<and>
   kind_of sample_store (Ref 5) = Some (Function (Host 0)) \<and>
   map_option fst (invoke ListModels 2 (Ref 0) (Ref 5) Undefined sample_store) =
     Some (Call_createRequest [Ref 17, Ref 5]) \<and>
   kind_of (snd (the (invoke ListModels 2 (Ref 0) (Ref 5) Undefined sample_store))) (Ref 5) =
     Some (Function (Host 0)) \<and>
   map_option fst (invoke ListIdentifiableLanguages 2 (Ref 0) (Ref 5) Undefined sample_store) =
     Some (Call_createRequest [Ref 16, Ref 5]) \<and>
   kind_of (snd (the (invoke ListIdentifiableLanguages 2 (Ref 0) (Ref 5) Undefined sample_store)))
       (Ref 5) =
     Some (Function (Host 0)) \<and>
   Function (Host 0) \<noteq> Function Noop"
  by code_simp

text \<open>
  C10, amended. When the callback argument is omitted, every method substitutes a new
  function that does nothing, and whatever call the method ends in gets that function as
  its callback, unless the method is one of the two that accept the callback as their
  only argument and params is a function. A call that fails the presence check with the
  callback omitted returns \<^verbatim>\<open>undefined\<close>: nothing is thrown, neither a function from outside
  nor \<^verbatim>\<open>createRequest\<close> is run, the world outside is as it was, and the store has only
  gained new objects. (A method with required parameters never takes params for the
  callback, so this second part has no exception.)
\<close>

theorem omitted_callback_discards_missing_error:
  "(\<forall>tc h'. invoke m stack this params Undefined h = Some (tc, h') \<longrightarrow>
      \<not> (callback_first m \<and> typeof_function h params) \<longrightarrow>
      (\<exists>cb. ((\<exists>e. tc = Call_callback cb [e]) \<or> (\<exists>p. tc = Call_createRequest [p, cb])) \<and>
            kind_of h' cb = Some (Function Noop))) \<and>
   (\<not> (\<forall>r\<in>set (requiredParams m). present h params r) \<longrightarrow>
      (\<exists>h'. call_method host createRequest m stack this params Undefined (h, w) =
              Some (Returned Undefined, h', w) \<and>
            length h \<le> length h' \<and> (\<forall>a<length h. h' ! a = h ! a)))"
proof (intro conjI impI allI)
  fix tc h'
  assume e: "invoke m stack this params Undefined h = Some (tc, h')"
    and n: "\<not> (callback_first m \<and> typeof_function h params)"
  show "\<exists>cb. ((\<exists>e. tc = Call_callback cb [e]) \<or> (\<exists>p. tc = Call_createRequest [p, cb])) \<and>
            kind_of h' cb = Some (Function Noop)"
    using invoke_callback[OF e] n by auto
next
  assume a: "\<not> (\<forall>r\<in>set (requiredParams m). present h params r)"
  have nf: "\<not> callback_first m" using a required_not_first by fastforce
  let ?cb = "effective_callback (callback_first m) h params Undefined"
  let ?h1 = "before_check (callback_first m) h params Undefined"
  let ?h' = "?h1 @ [\<lparr>kind = MissingParamsError
      (missing_params (requiredParams m) (params_props (callback_first m) h params Undefined)),
      props = []\<rparr>]"
  have e: "invoke m stack this params Undefined h =
           Some (Call_callback ?cb [Ref (length ?h1)], ?h')"
    unfolding invoke_is_endpoint by (rule endpoint_missing[OF missing_params_absent[OF a]])
  have k: "kind_of ?h' ?cb = Some (Function Noop)"
    using invoke_callback(2)[OF e] nf by simp
  have f: "keeps {..<length h} h ?h'" using e by (rule invoke_frame)
  have "call_method host createRequest m stack this params Undefined (h, w) =
          Some (Returned Undefined, ?h', w)"
    by (simp add: call_method_def e perform_def call_function_def k)
  then show "\<exists>h'. call_method host createRequest m stack this params Undefined (h, w) =
              Some (Returned Undefined, h', w) \<and>
            length h \<le> length h' \<and> (\<forall>a<length h. h' ! a = h ! a)"
    using f unfolding keeps_def by blast
qed

lemma sample_deleteModel_missing:
  "map_option fst (invoke DeleteModel 2 (Ref 0) (Ref 3) Undefined sample_store) =
     Some (Call_callback (Ref 11) [Ref 12])"
  "\<not> present sample_store (Ref 3) ''model_id''"
  "\<not> typeof_function sample_store (Ref 3)"
  by code_simp+

theorem omitted_callback_discards_missing_error_witness:
  "\<not> present sample_store (Ref 3) ''model_id'' \<and>
   \<not> (callback_first DeleteModel \<and> typeof_function sample_store (Ref 3)) \<and>
   (\<exists>h'. invoke DeleteModel 2 (Ref 0) (Ref 3) Undefined sample_store =
            Some (Call_callback (Ref 11) [Ref 12], h') \<and>
          kind_of h' (Ref 11) = Some (Function Noop)) \<and>
   (\<exists>h'. call_method (\<lambda>i args s. (Threw Null, s)) (\<lambda>args s. (Threw Null, s))
            DeleteModel 2 (Ref 0) (Ref 3) Undefined (sample_store, ()) =
          Some (Returned Undefined, h', ()))"
proof -
  note r = omitted_callback_discards_missing_error[of DeleteModel 2 "Ref 0" "Ref 3" sample_store
        "\<lambda>i args s. (Threw Null, s)" "\<lambda>args s. (Threw Null, s)" "()"]
  note p = sample_deleteModel_missing(2)
  have nf: "\<not> (callback_first DeleteModel \<and> typeof_function sample_store (Ref 3))" by simp
  obtain h' where e: "invoke DeleteModel 2 (Ref 0) (Ref 3) Undefined sample_store =
      Some (Call_callback (Ref 11) [Ref 12], h')"
    using sample_deleteModel_missing(1) by auto
  have "\<exists>cb. ((\<exists>e. Call_callback (Ref 11) [Ref 12] = Call_callback cb [e]) \<or>
              (\<exists>p. Call_callback (Ref 11) [Ref 12] = Call_createRequest [p, cb])) \<and>
             kind_of h' cb = Some (Function Noop)"
    using r[THEN conjunct1, rule_format, OF e nf] .
  then have k: "kind_of h' (Ref 11) = Some (Function Noop)" by auto
  have "\<not> (\<forall>r\<in>set (requiredParams DeleteModel). present sample_store (Ref 3) r)"
    using p by simp
  then have "\<exists>h'. call_method (\<lambda>i args s. (Threw Null, s)) (\<lambda>args s. (Threw Null, s))
            DeleteModel 2 (Ref 0) (Ref 3) Undefined (sample_store, ()) =
          Some (Returned Undefined, h', ())"
    using r[THEN conjunct2] by blast
  then show ?thesis using p nf e k by blast
qed
lemma endpoint_options:
  assumes e: "endpoint required literals hdrs swap stack this params callback h0 =
             Some (Call_createRequest (p # args), h')"
    and ne: "literals (lookup (params_props swap h0 params callback))
               (length (before_check swap h0 params callback)) \<noteq> []"
  shows "\<exists>oa. get_prop h' p ''options'' = Ref oa \<and> oa < length h' \<and>
           h' ! oa = last (literals (lookup (params_props swap h0 params callback))
                            (length (before_check swap h0 params callback)))"
proof -
  let ?L = "literals (lookup (params_props swap h0 params callback))
               (length (before_check swap h0 params callback))"
  let ?h2 = "before_options literals swap h0 params callback"
  obtain d h3 where d: "default_options stack this hdrs ?h2 = Some (d, h3)"
    and h': "h' = h3 @ [\<lparr>kind = PlainObject, props =
                [(''options'', Ref (length ?h2 - 1)), (''defaultOptions'', d)]\<rparr>]"
    and p: "p = Ref (length h3)"
    using e by (auto simp: endpoint_def Let_def split: option.splits if_splits)
  have k: "keeps {..<length ?h2} ?h2 h3" using d by (rule default_options_keeps)
  have h2: "?h2 = before_check swap h0 params callback @ ?L" by (simp add: before_options_def)
  have "last ?h2 = last ?L" using ne unfolding h2 by simp
  moreover have "?h2 \<noteq> []" unfolding h2 using ne by simp
  ultimately have l: "?h2 ! (length ?h2 - 1) = last ?L" by (simp add: last_conv_nth)
  have lo: "length ?h2 - 1 < length ?h2" using ne unfolding h2 by simp
  then have "h3 ! (length ?h2 - 1) = ?h2 ! (length ?h2 - 1)" "length ?h2 - 1 < length h3"
    using k by (auto simp: keeps_def)
  then have "h' ! (length ?h2 - 1) = last ?L" "length ?h2 - 1 < length h'"
    using l by (simp_all add: h' nth_append)
  moreover have "get_prop h' p ''options'' = Ref (length ?h2 - 1)"
    unfolding h' p by (simp add: get_prop_at lookup_def)
  ultimately show ?thesis by blast
qed

lemma literals_of_target:
  "(lookup (props (last (literals_of m rd n))) ''method'',
    lookup (props (last (literals_of m rd n))) ''url'') = endpoint_of m"
  by (cases m; simp add: lookup_def translate_literals_def identify_literals_def
        listIdentifiableLanguages_literals_def createModel_literals_def model_literals_def
        listModels_literals_def)

text \<open>Whatever the call, a request built by a method goes to the method's own endpoint.\<close>

lemma invoke_target:
  assumes "request_target (invoke m stack this params callback h) = Some e"
  shows "e = endpoint_of m"
proof -
  obtain p args h' where r: "invoke m stack this params callback h =
      Some (Call_createRequest (p # args), h')"
    and e: "e = (path_get h' p [''options'', ''method''], path_get h' p [''options'', ''url''])"
    using assms
    by (auto simp: request_target_def split: option.splits tailcall.splits list.splits)
  let ?L = "literals_of m (lookup (params_props (callback_first m) h params callback))
              (length (before_check (callback_first m) h params callback))"
  obtain oa where o: "get_prop h' p ''options'' = Ref oa" "oa < length h'" "h' ! oa = last ?L"
    using endpoint_options[OF r[unfolded invoke_is_endpoint] literals_of_plain(1)] by blast
  have "e = (lookup (props (last ?L)) ''method'', lookup (props (last ?L)) ''url'')"
    using o by (simp add: e get_prop_nth)
  then show ?thesis by (simp add: literals_of_target)
qed

text \<open>
  C7, as the spec states it, fails: \<^verbatim>\<open>identify\<close> and \<^verbatim>\<open>identifyPlain\<close> are two public
  methods that both build a request with method \<open>'POST'\<close> and url \<open>'/v2/identify'\<close>.
\<close>

theorem one_method_per_endpoint_counterexample:
  "request_target (invoke Identify 2 (Ref 0) (Ref 9) (Ref 5) sample_store) =
     Some (JStr ''POST'', JStr ''/v2/identify'') \<and>
   request_target (invoke IdentifyPlain 2 (Ref 0) (Ref 9) (Ref 5) sample_store) =
     Some (JStr ''POST'', JStr ''/v2/identify'') \<and>
   Identify \<noteq> IdentifyPlain"
  by code_simp

text \<open>
  C7, amended. Whatever the calls, two methods that build a request to the same (HTTP
  method, URL) pair are the same method, unless the pair is (\<open>'POST'\<close>, \<open>'/v2/identify'\<close>)
  and the two are \<^verbatim>\<open>identify\<close> and \<^verbatim>\<open>identifyPlain\<close>: every pair the class targets has
  exactly one method, except that one, which has exactly these two.
\<close>

theorem one_method_per_endpoint_except_identify:
  assumes "request_target (invoke m1 stack1 this1 params1 callback1 h1) = Some e"
    and "request_target (invoke m2 stack2 this2 params2 callback2 h2) = Some e"
  shows "m1 = m2 \<or>
         (e = (JStr ''POST'', JStr ''/v2/identify'') \<and>
          (m1 = Identify \<and> m2 = IdentifyPlain \<or> m1 = IdentifyPlain \<and> m2 = Identify))"
proof -
  have "endpoint_of m1 = e" "endpoint_of m2 = e"
    using assms invoke_target by blast+
  then show ?thesis by (cases m1; cases m2; simp; blast)
qed

lemma sample_identify_targets:
  "request_target (invoke Identify 2 (Ref 0) (Ref 9) (Ref 5) sample_store) =
     Some (JStr ''POST'', JStr ''/v2/identify'')"
  "request_target (invoke IdentifyPlain 2 (Ref 0) (Ref 9) Undefined sample_store) =
     Some (JStr ''POST'', JStr ''/v2/identify'')"
  "request_target (invoke GetModel 2 (Ref 0) (Ref 6) (Ref 5) sample_store) =
     Some (JStr ''GET'', JStr ''/v2/models/{model_id}'')"
  by code_simp+

theorem one_method_per_endpoint_except_identify_witness:
  "request_target (invoke Identify 2 (Ref 0) (Ref 9) (Ref 5) sample_store) =
     Some (JStr ''POST'', JStr ''/v2/identify'') \<and>
   request_target (invoke IdentifyPlain 2 (Ref 0) (Ref 9) Undefined sample_store) =
     Some (JStr ''POST'', JStr ''/v2/identify'') \<and>
   request_target (invoke GetModel 2 (Ref 0) (Ref 6) (Ref 5) sample_store) =
     Some (JStr ''GET'', JStr ''/v2/models/{model_id}'') \<and>
   (GetModel = GetModel \<or> Identify = IdentifyPlain)"
  using one_method_per_endpoint_except_identify[OF sample_identify_targets(1,2)]
    one_method_per_endpoint_except_identify[OF sample_identify_targets(3,3)]
    sample_identify_targets
  by blast

text \<open>
  C5. For every well-formed call whose params object has \<open>model_id\<close> present,
  \<^verbatim>\<open>deleteModel\<close> and \<^verbatim>\<open>getModel\<close> end in \<^verbatim>\<open>createRequest\<close> with the same arguments, and the
  stores they leave are equal everywhere except in the \<open>options\<close> object, whose \<open>method\<close>
  is \<open>'DELETE'\<close> for the one and \<open>'GET'\<close> for the other; its \<open>url\<close> is the template
  \<open>'/v2/models/{model_id}'\<close> and its \<open>path\<close> is a plain object whose only property is
  \<open>model_id\<close>, holding that field of the caller's params; the default \<open>Accept\<close> header is
  \<open>'application/json'\<close>.
\<close>

theorem model_requests_differ_in_method_only:
  assumes "well_formed_call stack this params callback h"
    and "present h params ''model_id''"
  shows "\<exists>p cb hD hG opt pa.
      deleteModel stack this params callback h = Some (Call_createRequest [p, cb], hD) \<and>
      getModel stack this params callback h = Some (Call_createRequest [p, cb], hG) \<and>
      path_get hD p [''options''] = Ref opt \<and> opt < length hD \<and>
      hD ! opt = \<lparr>kind = PlainObject, props =
         [(''url'', JStr ''/v2/models/{model_id}''), (''method'', JStr ''DELETE''),
          (''path'', Ref pa)]\<rparr> \<and>
      hG ! opt = \<lparr>kind = PlainObject, props =
         [(''url'', JStr ''/v2/models/{model_id}''), (''method'', JStr ''GET''),
          (''path'', Ref pa)]\<rparr> \<and>
      isPlainObject hD (Ref pa) \<and>
      props_of hD (Ref pa) = [(''model_id'', get_prop h params ''model_id'')] \<and>
      path_get hD p [''defaultOptions'', ''headers'', ''Accept''] = JStr ''application/json'' \<and>
      length hG = length hD \<and> (\<forall>a<length hD. a \<noteq> opt \<longrightarrow> hG ! a = hD ! a)"
proof -
  let ?hd = "[(''Accept'', JStr ''application/json'')]"
  let ?n = "first_literal h callback"
  let ?rd = "get_prop h params"
  let ?h1 = "before_check False h params callback"
  let ?LD = "model_literals ''DELETE'' ?rd ?n" and ?LG = "model_literals ''GET'' ?rd ?n"
  let ?h2D = "before_options (model_literals ''DELETE'') False h params callback"
  let ?h2G = "before_options (model_literals ''GET'') False h params callback"
  let ?cb = "effective_callback False h params callback"
  have closed: "heap_closed h" and thi: "in_heap h this"
    using assms(1) by (simp_all add: well_formed_call_def)
  have pp: "params_props False h params callback = copied h params"
    by (simp add: params_props_def fn_first_def)
  have rd: "lookup (params_props False h params callback) = ?rd"
    unfolding pp by (rule ext) (simp add: lookup_copied[OF closed])
  have nm: "missing_params [''model_id''] (params_props False h params callback) = []"
    using assms(2) by (simp add: missing_params_def pp in_copied[OF closed])
  have lb: "length ?h1 = ?n"
    by (simp add: before_check_def callback_objs_def fn_first_def first_literal_def)
  have l0: "length h < ?n" by (simp add: first_literal_def)
  have h2D: "?h2D = ?h1 @ ?LD" and h2G: "?h2G = ?h1 @ ?LG"
    by (simp_all add: before_options_def rd lb)
  define opt where "opt = Suc ?n"
  define pa where "pa = ?n"
  have len: "length ?h2D = Suc (Suc ?n)" "length ?h2G = Suc (Suc ?n)"
    by (simp_all add: h2D h2G lb model_literals_def)
  have optD: "?h2D ! opt = \<lparr>kind = PlainObject, props =
         [(''url'', JStr ''/v2/models/{model_id}''), (''method'', JStr ''DELETE''),
          (''path'', Ref pa)]\<rparr>"
    and optG: "?h2G ! opt = \<lparr>kind = PlainObject, props =
         [(''url'', JStr ''/v2/models/{model_id}''), (''method'', JStr ''GET''),
          (''path'', Ref pa)]\<rparr>"
    and paD: "?h2D ! pa = \<lparr>kind = PlainObject, props = [(''model_id'', ?rd ''model_id'')]\<rparr>"
    unfolding opt_def pa_def
    by (simp_all add: h2D h2G nth_append lb model_literals_def)
  have ag: "agree {opt} ?h2D ?h2G"
    unfolding agree_def opt_def
    by (auto simp: h2D h2G nth_append lb model_literals_def less_Suc_eq)
  have un: "unreached {opt} ?h2D"
  proof (rule unreached_beyond[where N = opt])
    show "\<forall>a<length ?h2D. a \<notin> {opt} \<longrightarrow>
            (\<forall>k b. (k, Ref b) \<in> set (props (?h2D ! a)) \<longrightarrow> b < opt)"
    proof (intro allI impI)
      fix a k b
      assume a: "a < length ?h2D" "a \<notin> {opt}" and m: "(k, Ref b) \<in> set (props (?h2D ! a))"
      show "b < opt"
      proof (cases "a < ?n")
        case True
        then have "(k, Ref b) \<in> set (props (?h1 ! a))" using m by (simp add: h2D nth_append lb)
        then have "b < length h" using before_check_refs[OF closed] True lb by metis
        then show ?thesis using l0 by (simp add: opt_def)
      next
        case False
        then have "a = pa" using a by (simp add: len opt_def pa_def)
        then have "?rd ''model_id'' = Ref b" using m paD by simp
        then have "b < length h" by (rule lookup_copied_in_heap[OF closed])
        then show ?thesis using l0 by (simp add: opt_def)
      qed
    qed
  qed simp
  have Xb: "\<forall>a\<in>{opt}. a < length ?h2D" by (simp add: len opt_def)
  have ir: "in_region (- {opt}) this"
    using thi l0 by (auto simp: in_heap_def in_region_def opt_def split: jsval.splits)
  have prim: "\<forall>(k, v) \<in> set ?hd. \<exists>s. v = JStr s" by simp
  obtain hD c where
    eD: "endpoint [''model_id''] (model_literals ''DELETE'') ?hd False stack this params callback h =
       Some (Call_createRequest [Ref (length hD - 1), ?cb], hD)"
    and a: "length ?h2D + 3 < length hD"
    and b: "\<forall>i<length ?h2D. hD ! i = ?h2D ! i"
    and l: "hD ! (length hD - 1) = \<lparr>kind = PlainObject, props =
        [(''options'', Ref (length ?h2D - 1)), (''defaultOptions'', Ref (length ?h2D))]\<rparr>"
    and g: "get_prop hD (Ref (length ?h2D)) ''headers'' = Ref c"
    and hv: "\<forall>(k, v) \<in> set ?hd. get_prop hD (Ref c) k = v"
    by (rule endpoint_view[OF assms(1) nm, where hdrs = ?hd and literals = "model_literals ''DELETE''"])
      auto
  obtain d h3 where d: "default_options stack this ?hd ?h2D = Some (d, h3)"
    and hD: "hD = h3 @ [\<lparr>kind = PlainObject, props =
                [(''options'', Ref (length ?h2D - 1)), (''defaultOptions'', d)]\<rparr>]"
    using eD nm by (auto simp: endpoint_def Let_def split: option.splits)
  obtain g3 where g3: "default_options stack this ?hd ?h2G = Some (d, g3)"
    and ag3: "agree {opt} h3 g3"
    using default_options_agree[OF ag un Xb ir prim d] by blast
  define hG where "hG = g3 @ [\<lparr>kind = PlainObject, props =
                [(''options'', Ref (length ?h2D - 1)), (''defaultOptions'', d)]\<rparr>]"
  have l3: "length g3 = length h3" using ag3 by (simp add: agree_def)
  have eG: "endpoint [''model_id''] (model_literals ''GET'') ?hd False stack this params callback h =
       Some (Call_createRequest [Ref (length hD - 1), ?cb], hG)"
    using nm g3 by (simp add: endpoint_def Let_def hG_def hD l3 len)
  have agf: "length hG = length hD" "\<forall>a<length hD. a \<noteq> opt \<longrightarrow> hG ! a = hD ! a"
    using ag3 by (auto simp: agree_def hG_def hD nth_append)
  have kG: "keeps {..<length ?h2G} ?h2G g3" using g3 by (rule default_options_keeps)
  have lo: "opt < length hD" "pa < length hD" using a by (simp_all add: len opt_def pa_def)
  have oD: "hD ! opt = ?h2D ! opt" and pD: "hD ! pa = ?h2D ! pa"
    using b by (simp_all add: len opt_def pa_def)
  have oG: "hG ! opt = ?h2G ! opt"
    using kG by (simp add: keeps_def hG_def nth_append len opt_def)
  define p where "p = Ref (length hD - 1)"
  define t where "t = length ?h2D"
  have lt: "length hD - 1 < length hD" using a by simp
  have po: "get_prop hD p ''options'' = Ref opt"
    using lt l unfolding p_def by (simp add: get_prop_nth lookup_def len opt_def)
  have pd: "get_prop hD p ''defaultOptions'' = Ref t"
    using lt l unfolding p_def t_def by (simp add: get_prop_nth lookup_def)
  have g': "get_prop hD (Ref t) ''headers'' = Ref c" using g by (simp add: t_def)
  have f1: "deleteModel stack this params callback h = Some (Call_createRequest [p, ?cb], hD)"
    and f2: "getModel stack this params callback h = Some (Call_createRequest [p, ?cb], hG)"
    unfolding deleteModel_endpoint getModel_endpoint p_def using eD eG by simp_all
  have f3: "path_get hD p [''options''] = Ref opt" by (simp add: po)
  have f4: "isPlainObject hD (Ref pa)"
    and f5: "props_of hD (Ref pa) = [(''model_id'', get_prop h params ''model_id'')]"
    using lo pD paD by (simp_all add: isPlainObject_nth)
  have f6: "path_get hD p [''defaultOptions'', ''headers'', ''Accept''] = JStr ''application/json''"
    using hv by (simp add: pd g')
  have f7: "hD ! opt = \<lparr>kind = PlainObject, props =
         [(''url'', JStr ''/v2/models/{model_id}''), (''method'', JStr ''DELETE''),
          (''path'', Ref pa)]\<rparr>"
    using oD optD by simp
  have f8: "hG ! opt = \<lparr>kind = PlainObject, props =
         [(''url'', JStr ''/v2/models/{model_id}''), (''method'', JStr ''GET''),
          (''path'', Ref pa)]\<rparr>"
    using oG optG by simp
  show ?thesis
    apply (rule exI[of _ p], rule exI[of _ ?cb], rule exI[of _ hD], rule exI[of _ hG],
        rule exI[of _ opt], rule exI[of _ pa])
    using agf(2) lo(1)
    by (simp add: f1 f2 f3 f4 f5 f6 f7 f8 agf(1) del: path_get.simps props_of.simps)
qed

theorem model_requests_differ_in_method_only_witness:
  "well_formed_call 2 (Ref 0) (Ref 6) (Ref 5) sample_store \<and>
   present sample_store (Ref 6) ''model_id'' \<and>
   (\<exists>p cb hD hG opt pa.
      deleteModel 2 (Ref 0) (Ref 6) (Ref 5) sample_store = Some (Call_createRequest [p, cb], hD) \<and>
      getModel 2 (Ref 0) (Ref 6) (Ref 5) sample_store = Some (Call_createRequest [p, cb], hG) \<and>
      path_get hD p [''options''] = Ref opt \<and>
      hD ! opt = \<lparr>kind = PlainObject, props =
         [(''url'', JStr ''/v2/models/{model_id}''), (''method'', JStr ''DELETE''),
          (''path'', Ref pa)]\<rparr> \<and>
      hG ! opt = \<lparr>kind = PlainObject, props =
         [(''url'', JStr ''/v2/models/{model_id}''), (''method'', JStr ''GET''),
          (''path'', Ref pa)]\<rparr> \<and>
      props_of hD (Ref pa) = [(''model_id'', JStr ''en-es'')] \<and>
      length hG = length hD)"
  using model_requests_differ_in_method_only[OF sample_well_formed(2) sample_present(2)]
    sample_well_formed(2) sample_present(2)
  unfolding sample_fields by blast

text \<open>
  C8. For every well-formed call whose params object has \<open>text\<close> present, \<^verbatim>\<open>identify\<close> and
  \<^verbatim>\<open>identifyPlain\<close> end in \<^verbatim>\<open>createRequest\<close> with the same arguments. The \<open>options\<close> of the
  request are the same object in both stores: \<open>url\<close> \<open>'/v2/identify'\<close>, \<open>method\<close> \<open>'POST'\<close>,
  \<open>json\<close> \<open>false\<close> and \<open>body\<close> the \<open>text\<close> field of the caller's params; the default
  \<open>Content-Type\<close> header is \<open>'text/plain'\<close> in both. The default \<open>Accept\<close> header is
  \<open>'application/json'\<close> for \<^verbatim>\<open>identify\<close> and \<open>'text/plain'\<close> for \<^verbatim>\<open>identifyPlain\<close>, and that is the
  only difference: the two stores have the same size, and at every address they hold
  either the same object or two objects that differ in that \<open>Accept\<close> property only.
\<close>

theorem identify_variants_differ_in_accept_only:
  assumes "well_formed_call stack this params callback h"
    and "present h params ''text''"
  shows "\<exists>p cb hI hP opt.
      identify stack this params callback h = Some (Call_createRequest [p, cb], hI) \<and>
      identifyPlain stack this params callback h = Some (Call_createRequest [p, cb], hP) \<and>
      path_get hI p [''options''] = Ref opt \<and> opt < length hI \<and>
      hI ! opt = \<lparr>kind = PlainObject, props =
         [(''url'', JStr ''/v2/identify''), (''method'', JStr ''POST''),
          (''json'', JBool False), (''body'', get_prop h params ''text'')]\<rparr> \<and>
      hP ! opt = hI ! opt \<and>
      path_get hI p [''defaultOptions'', ''headers'', ''Content-Type''] = JStr ''text/plain'' \<and>
      path_get hP p [''defaultOptions'', ''headers'', ''Content-Type''] = JStr ''text/plain'' \<and>
      path_get hI p [''defaultOptions'', ''headers'', ''Accept''] = JStr ''application/json'' \<and>
      path_get hP p [''defaultOptions'', ''headers'', ''Accept''] = JStr ''text/plain'' \<and>
      length hP = length hI \<and>
      (\<forall>a<length hI. hP ! a = hI ! a \<or> accept_differs (hI ! a) (hP ! a))"
proof -
  let ?hdI = "[(''Accept'', JStr ''application/json''), (''Content-Type'', JStr ''text/plain'')]"
  let ?hdP = "[(''Accept'', JStr ''text/plain''), (''Content-Type'', JStr ''text/plain'')]"
  let ?n = "first_literal h callback"
  let ?rd = "get_prop h params"
  let ?h1 = "before_check False h params callback"
  let ?h2 = "before_options identify_literals False h params callback"
  let ?cb = "effective_callback False h params callback"
  let ?O = "\<lparr>kind = PlainObject, props =
         [(''url'', JStr ''/v2/identify''), (''method'', JStr ''POST''),
          (''json'', JBool False), (''body'', ?rd ''text'')]\<rparr>"
  have closed: "heap_closed h" and thi: "in_heap h this" and st: "0 < stack"
    and nw: "nests_within stack h (get_prop h this ''_options'')"
    and rcv: "this \<noteq> Undefined" "this \<noteq> Null"
    using assms(1) by (simp_all add: well_formed_call_def)
  have pp: "params_props False h params callback = copied h params"
    by (simp add: params_props_def fn_first_def)
  have rd: "lookup (params_props False h params callback) = ?rd"
    unfolding pp by (rule ext) (simp add: lookup_copied[OF closed])
  have nm: "missing_params [''text''] (params_props False h params callback) = []"
    using assms(2) by (simp add: missing_params_def pp in_copied[OF closed])
  have lb: "length ?h1 = ?n"
    by (simp add: before_check_def callback_objs_def fn_first_def first_literal_def)
  have l0: "length h < ?n" by (simp add: first_literal_def)
  have h2: "?h2 = ?h1 @ [?O]"
    by (simp add: before_options_def rd identify_literals_def)
  define opt where "opt = ?n"
  define t where "t = length ?h2"
  have len2: "t = Suc opt" by (simp add: t_def opt_def h2 lb)
  have O2: "?h2 ! opt = ?O" unfolding opt_def by (simp add: h2 nth_append lb)
  have pre: "keeps {..<length h} h ?h2" by (rule before_options_keeps)
  have refs: "\<forall>a<length ?h2. \<forall>k b. (k, Ref b) \<in> set (props (?h2 ! a)) \<longrightarrow> b < length ?h2"
  proof (intro allI impI)
    fix a k b
    assume a: "a < length ?h2" and m: "(k, Ref b) \<in> set (props (?h2 ! a))"
    have "b < length h"
    proof (cases "a < ?n")
      case True
      then have "(k, Ref b) \<in> set (props (?h1 ! a))" using m by (simp add: h2 nth_append lb)
      then show ?thesis using before_check_refs[OF closed] True lb by metis
    next
      case False
      then have "a = opt" using a len2 by (simp add: t_def opt_def)
      then have "?rd ''text'' = Ref b" using m O2 by simp
      then show ?thesis by (rule lookup_copied_in_heap[OF closed])
    qed
    then show "b < length ?h2" using l0 len2 by (simp add: t_def opt_def)
  qed
  obtain dI dP where
    rI: "default_options stack this ?hdI ?h2 = Some (Ref (length ?h2), dI)"
    and rP: "default_options stack this ?hdP ?h2 = Some (Ref (length ?h2), dP)"
    and ld: "length dP = length dI"
    and cmp: "\<forall>a<length dI. dP ! a = dI ! a \<or> accept_differs (dI ! a) (dP ! a)"
    by (rule default_options_accept[OF closed pre thi st nw refs rcv])
  define PA where "PA = \<lparr>kind = PlainObject, props =
                [(''options'', Ref (length ?h2 - 1)), (''defaultOptions'', Ref (length ?h2))]\<rparr>"
  define hI where "hI = dI @ [PA]"
  define hP where "hP = dP @ [PA]"
  define p where "p = Ref (length dI)"
  have eI: "endpoint [''text''] identify_literals ?hdI False stack this params callback h =
       Some (Call_createRequest [p, ?cb], hI)"
    using nm rI by (simp add: endpoint_def Let_def hI_def PA_def p_def)
  have eP: "endpoint [''text''] identify_literals ?hdP False stack this params callback h =
       Some (Call_createRequest [p, ?cb], hP)"
    using nm rP by (simp add: endpoint_def Let_def hP_def PA_def p_def ld)
  obtain vI cI where
    vI: "endpoint [''text''] identify_literals ?hdI False stack this params callback h =
       Some (Call_createRequest [Ref (length vI - 1), ?cb], vI)"
    and aI: "length ?h2 + 3 < length vI"
    and bI: "\<forall>i<length ?h2. vI ! i = ?h2 ! i"
    and gI: "get_prop vI (Ref (length ?h2)) ''headers'' = Ref cI"
    and hvI: "\<forall>(k, v) \<in> set ?hdI. get_prop vI (Ref cI) k = v"
    by (rule endpoint_view[OF assms(1) nm, where hdrs = ?hdI and literals = identify_literals])
      auto
  obtain vP cP where
    vP: "endpoint [''text''] identify_literals ?hdP False stack this params callback h =
       Some (Call_createRequest [Ref (length vP - 1), ?cb], vP)"
    and bP: "\<forall>i<length ?h2. vP ! i = ?h2 ! i"
    and gP: "get_prop vP (Ref (length ?h2)) ''headers'' = Ref cP"
    and hvP: "\<forall>(k, v) \<in> set ?hdP. get_prop vP (Ref cP) k = v"
    by (rule endpoint_view[OF assms(1) nm, where hdrs = ?hdP and literals = identify_literals])
      auto
  have vI': "vI = hI" using vI eI by simp
  have vP': "vP = hP" using vP eP by simp
  have lI: "length hI = Suc (length dI)" and lP: "length hP = length hI"
    by (simp_all add: hI_def hP_def ld)
  have lt: "length dI < length hI" by (simp add: lI)
  have optl: "opt < length dI" "opt < length ?h2" "t < length dI"
    using aI by (simp_all add: vI' lI len2 t_def[symmetric])
  have po: "get_prop hI p ''options'' = Ref opt"
    using lt unfolding p_def
    by (simp add: get_prop_nth hI_def PA_def lookup_def t_def[symmetric] len2)
  have pdI: "get_prop hI p ''defaultOptions'' = Ref t"
    using lt unfolding p_def
    by (simp add: get_prop_nth hI_def PA_def lookup_def t_def[symmetric])
  have pdP: "get_prop hP p ''defaultOptions'' = Ref t"
    unfolding p_def ld[symmetric]
    by (simp add: get_prop_def hP_def PA_def t_def[symmetric])
  have gI': "get_prop hI (Ref t) ''headers'' = Ref cI" using gI by (simp add: t_def vI')
  have gP': "get_prop hP (Ref t) ''headers'' = Ref cP" using gP by (simp add: t_def vP')
  have f1: "identify stack this params callback h = Some (Call_createRequest [p, ?cb], hI)"
    and f2: "identifyPlain stack this params callback h = Some (Call_createRequest [p, ?cb], hP)"
    unfolding identify_endpoint identifyPlain_endpoint using eI eP by simp_all
  have f3: "path_get hI p [''options''] = Ref opt" by (simp add: po)
  have f4: "opt < length hI" using optl by (simp add: lI)
  have f5: "hI ! opt = ?O" using bI optl(2) O2 by (simp add: vI')
  have f6: "hP ! opt = hI ! opt" using bP optl(2) f5 O2 by (simp add: vP')
  have f7: "path_get hI p [''defaultOptions'', ''headers'', ''Content-Type''] = JStr ''text/plain''"
    and f9: "path_get hI p [''defaultOptions'', ''headers'', ''Accept''] = JStr ''application/json''"
    using hvI by (simp_all add: pdI gI' vI')
  have f8: "path_get hP p [''defaultOptions'', ''headers'', ''Content-Type''] = JStr ''text/plain''"
    and f10: "path_get hP p [''defaultOptions'', ''headers'', ''Accept''] = JStr ''text/plain''"
    using hvP by (simp_all add: pdP gP' vP')
  have f11: "\<forall>a<length hI. hP ! a = hI ! a \<or> accept_differs (hI ! a) (hP ! a)"
    using cmp by (auto simp: hI_def hP_def nth_append ld less_Suc_eq)
  show ?thesis
    apply (rule exI[of _ p], rule exI[of _ ?cb], rule exI[of _ hI], rule exI[of _ hP],
        rule exI[of _ opt])
    using f11
    by (simp add: f1 f2 f3 f4 f5 f6 f7 f8 f9 f10 lP del: path_get.simps)
qed

theorem identify_variants_differ_in_accept_only_witness:
  "well_formed_call 2 (Ref 0) (Ref 9) (Ref 5) sample_store \<and>
   present sample_store (Ref 9) ''text'' \<and>
   (\<exists>p cb hI hP opt.
      identify 2 (Ref 0) (Ref 9) (Ref 5) sample_store = Some (Call_createRequest [p, cb], hI) \<and>
      identifyPlain 2 (Ref 0) (Ref 9) (Ref 5) sample_store = Some (Call_createRequest [p, cb], hP) \<and>
      path_get hI p [''options''] = Ref opt \<and>
      hI ! opt = \<lparr>kind = PlainObject, props =
         [(''url'', JStr ''/v2/identify''), (''method'', JStr ''POST''),
          (''json'', JBool False), (''body'', JStr ''hola'')]\<rparr> \<and>
      hP ! opt = hI ! opt \<and>
      path_get hI p [''defaultOptions'', ''headers'', ''Accept''] = JStr ''application/json'' \<and>
      path_get hP p [''defaultOptions'', ''headers'', ''Accept''] = JStr ''text/plain'' \<and>
      length hP = length hI)"
  using identify_variants_differ_in_accept_only[OF sample_well_formed(5) sample_present(4)]
    sample_well_formed(5) sample_present(4)
  unfolding sample_fields by blast

end
